theory Spec2Isabelle
  imports Complex_Main "HOL-Library.Sublist" "HOL-Library.AList"
begin

section \<open>JavaScript values and string helpers\<close>

text \<open>
  Strings are lists of 8-bit code units (\<open>string\<close>); the model covers the strings whose
  code units are below 256. Objects whose key order is visible (event properties) are
  association lists in insertion order.
\<close>

datatype jsval = JUndef | JNull | JBool bool | JNum int | JNaN | JStr string

type_synonym obj = "(string \<times> jsval) list"

text \<open>JavaScript truthiness, as used by \<open>!x\<close>, \<open>x || y\<close> and \<open>x && y\<close>.\<close>

fun truthy :: "jsval \<Rightarrow> bool" where
  "truthy JUndef = False"
| "truthy JNull = False"
| "truthy (JBool b) = b"
| "truthy (JNum n) = (n \<noteq> 0)"
| "truthy JNaN = False"
| "truthy (JStr s) = (s \<noteq> [])"

text \<open>\<open>a || b\<close>\<close>

definition js_or :: "jsval \<Rightarrow> jsval \<Rightarrow> jsval" where
  "js_or a b = (if truthy a then a else b)"

text \<open>\<open>o.k\<close>: a missing property reads as \<open>undefined\<close>.\<close>

definition obj_get :: "obj \<Rightarrow> string \<Rightarrow> jsval" where
  "obj_get ob k = (case map_of ob k of None \<Rightarrow> JUndef | Some v \<Rightarrow> v)"

text \<open>
  \<open>{...a, ...b}\<close>: the properties of \<open>b\<close> are written onto \<open>a\<close> in order; a key that is
  already there keeps its position and takes the new value.
\<close>

definition spread :: "obj \<Rightarrow> obj \<Rightarrow> obj" where
  "spread a b = fold (\<lambda>(k, v). AList.update k v) b a"

text \<open>\<open>s.split(c)\<close> for a one-character separator: never the empty list.\<close>

fun split_on :: "char \<Rightarrow> string \<Rightarrow> string list" where
  "split_on c [] = [[]]"
| "split_on c (x # xs) =
     (if x = c then [] # split_on c xs
      else (case split_on c xs of
              [] \<Rightarrow> [[x]]
            | s # ss \<Rightarrow> (x # s) # ss))"

text \<open>
  White space of \<open>String.prototype.trim\<close> and of the regular-expression class \<open>\s\<close>, among
  the code units below 256: TAB, LF, VT, FF, CR, space and NBSP.
\<close>

definition is_ws :: "char \<Rightarrow> bool" where
  "is_ws c = (c = CHR 0x09 \<or> c = CHR 0x0A \<or> c = CHR 0x0B \<or> c = CHR 0x0C \<or> c = CHR 0x0D
              \<or> c = CHR '' '' \<or> c = CHR 0xA0)"

definition trim :: "string \<Rightarrow> string" where
  "trim s = rev (dropWhile is_ws (rev (dropWhile is_ws s)))"

text \<open>\<open>s.startsWith(p)\<close> and \<open>s.includes(p)\<close>\<close>

definition startsWith :: "string \<Rightarrow> string \<Rightarrow> bool" where
  "startsWith s p = prefix p s"

definition str_includes :: "string \<Rightarrow> string \<Rightarrow> bool" where
  "str_includes s p = sublist p s"

fun join_with :: "string \<Rightarrow> string list \<Rightarrow> string" where
  "join_with sep [] = []"
| "join_with sep [x] = x"
| "join_with sep (x # y # ys) = x @ sep @ join_with sep (y # ys)"


section \<open>The two consent storage locations\<close>

text \<open>
  The browser's cookie store for the page, in the order \<open>document.cookie\<close> lists it, and
  \<open>localStorage\<close>. Reading \<open>document.cookie\<close> gives \<open>name=value\<close> pairs joined by
  \<open>"; "\<close>. Expiry and clearing by the browser or the user are not steps of the program
  and are not modelled: the stores change only where the code writes them.
\<close>

record cookie =
  c_name :: string
  c_value :: string
  c_expires :: int
  c_path :: string

definition document_cookie :: "cookie list \<Rightarrow> string" where
  "document_cookie jar = join_with ''; '' (map (\<lambda>c. c_name c @ ''='' @ c_value c) jar)"

text \<open>
  An assignment to \<open>document.cookie\<close>: a cookie of the same name and path is replaced
  where it stands, a new one is added at the end.
\<close>

fun store_cookie :: "cookie \<Rightarrow> cookie list \<Rightarrow> cookie list" where
  "store_cookie c [] = [c]"
| "store_cookie c (d # ds) =
     (if c_name d = c_name c \<and> c_path d = c_path c then c # ds else d # store_cookie c ds)"

text \<open>
  The first segment of the cookie string that, trimmed, starts with
  \<open>analytics-consent=\<close> (both scripts: \<open>document.cookie.split(';').find(...)\<close>).
\<close>

definition consentCookie :: "string \<Rightarrow> string option" where
  "consentCookie ck =
     find (\<lambda>c. startsWith (trim c) ''analytics-consent='') (split_on CHR '';'' ck)"

text \<open>
  \<open>hasUserConsent\<close> of the analytics script:
  \<open>consentCookie?.includes('true') || localConsent === 'true'\<close>.
\<close>

definition hasUserConsent :: "string \<Rightarrow> (string \<rightharpoonup> string) \<Rightarrow> bool" where
  "hasUserConsent ck ls =
     ((case consentCookie ck of None \<Rightarrow> False | Some c \<Rightarrow> str_includes c ''true'')
      \<or> ls ''analytics-consent'' = Some ''true'')"

text \<open>
  \<open>hasExistingConsent\<close> of the banner script: \<open>consentCookie || localConsent !== null\<close>.
  The value is the cookie segment itself when it is truthy, a boolean otherwise; the
  caller tests its truthiness.
\<close>

definition hasExistingConsent :: "string \<Rightarrow> (string \<rightharpoonup> string) \<Rightarrow> jsval" where
  "hasExistingConsent ck ls =
     js_or (case consentCookie ck of None \<Rightarrow> JUndef | Some c \<Rightarrow> JStr c)
           (JBool (ls ''analytics-consent'' \<noteq> None))"


section \<open>The query string: \<open>URLSearchParams\<close>\<close>

text \<open>
  The platform's parser of \<open>application/x-www-form-urlencoded\<close> strings, as the URL
  Standard defines it: one leading \<open>?\<close> is dropped, the string is split at \<open>&\<close>, empty
  pieces are skipped, each piece is split at its first \<open>=\<close>, \<open>+\<close> becomes a space and
  \<open>%XX\<close> is decoded. Names and values are kept as byte strings: the decoded bytes are
  not read as UTF-8, which makes no difference to the ASCII names and values that the
  code compares.
\<close>

definition hexval :: "char \<Rightarrow> nat option" where
  "hexval c =
     (let n = (of_char c :: nat) in
      if 48 \<le> n \<and> n \<le> 57 then Some (n - 48)
      else if 65 \<le> n \<and> n \<le> 70 then Some (n - 55)
      else if 97 \<le> n \<and> n \<le> 102 then Some (n - 87)
      else None)"

text \<open>The byte with high nibble \<open>h\<close> and low nibble \<open>l\<close>.\<close>

definition byte_of_nibbles :: "nat \<Rightarrow> nat \<Rightarrow> char" where
  "byte_of_nibbles h l =
     Char (odd l) (odd (l div 2)) (odd (l div 4)) (odd (l div 8))
          (odd h) (odd (h div 2)) (odd (h div 4)) (odd (h div 8))"

fun percent_decode :: "string \<Rightarrow> string" where
  "percent_decode (p # a # b # rest) =
     (if p = CHR ''%'' then
        (case (hexval a, hexval b) of
           (Some h, Some l) \<Rightarrow> byte_of_nibbles h l # percent_decode rest
         | _ \<Rightarrow> p # percent_decode (a # b # rest))
      else p # percent_decode (a # b # rest))"
| "percent_decode (p # rest) = p # percent_decode rest"
| "percent_decode [] = []"

definition form_decode :: "string \<Rightarrow> string" where
  "form_decode s = percent_decode (map (\<lambda>c. if c = CHR ''+'' then CHR '' '' else c) s)"

definition parse_pair :: "string \<Rightarrow> string \<times> string" where
  "parse_pair piece =
     (form_decode (takeWhile (\<lambda>c. c \<noteq> CHR ''='') piece),
      form_decode (drop 1 (dropWhile (\<lambda>c. c \<noteq> CHR ''='') piece)))"

definition URLSearchParams :: "string \<Rightarrow> (string \<times> string) list" where
  "URLSearchParams s =
     map parse_pair
       (filter (\<lambda>piece. piece \<noteq> [])
          (split_on CHR ''&'' (case s of [] \<Rightarrow> [] | c # cs \<Rightarrow> if c = CHR ''?'' then cs else s)))"

text \<open>\<open>params.get(name)\<close>: the first value of that name, or \<open>null\<close>.\<close>

definition params_get :: "(string \<times> string) list \<Rightarrow> string \<Rightarrow> string option" where
  "params_get ps name = map_of ps name"


section \<open>The page and the mutable state of one browser\<close>

text \<open>
  What a page load is given and does not change: the address, the referrer, the title,
  the \<open>data-analytics-campaign\<close> attribute of \<open>body\<close> (\<open>None\<close> when absent), which
  vendor globals and scripts the page has, and whether it has elements for the three
  kinds of tracking.
\<close>

record page =
  location_href :: string
  location_search :: string
  referrer :: string
  title :: string
  campaign_attr :: "string option"
  va_loaded :: bool
  hsq_loaded :: bool
  analytics_loaded :: bool
  has_sections :: bool
  has_ctas :: bool
  has_forms :: bool

text \<open>
  The mutable state. \<open>jar\<close>, \<open>local_store\<close> and the clock \<open>now\<close> (milliseconds) outlive
  a page; the rest belongs to the current page.
  \<^item> \<open>va\<close>: \<open>None\<close> when \<open>window.va\<close> is not a function, else the \<open>track\<close> calls made so
    far (event name and properties);
  \<^item> \<open>hsq\<close>: \<open>None\<close> when \<open>window._hsq\<close> is undefined, else the
    \<open>trackCustomBehavioralEvent\<close> entries pushed so far (name and properties);
  \<^item> \<open>analyticsId\<close> to \<open>pageLoadTime\<close>: the \<open>state\<close> object of the analytics script;
    \<open>sectionTimers\<close> maps a section to the deadline of its pending timeout and the section
    name the timeout's closure holds; a timeout is cleared exactly when its entry is
    removed, so the entries are the pending timeouts;
  \<^item> \<open>section_observers\<close>, \<open>cta_listeners\<close>, \<open>form_listeners\<close>: how many times the
    observer and the listeners have been installed;
  \<^item> \<open>eventAnalytics\<close>: \<open>window.EventAnalytics\<close> is defined;
  \<^item> \<open>banner_timer\<close>: deadline of the pending \<open>setTimeout(showConsentBanner, 1000)\<close>;
    \<open>banners\<close>: banner elements in the document; \<open>banner_removals\<close>: deadlines of pending
    removals.
\<close>

record world =
  jar :: "cookie list"
  local_store :: "string \<rightharpoonup> string"
  now :: int
  va :: "(string \<times> obj) list option"
  hsq :: "(string \<times> obj) list option"
  analyticsId :: jsval
  isQR :: bool
  utmParams :: obj
  trackedSections :: "string set"
  sectionTimers :: "(string \<times> int \<times> string) list"
  pageLoadTime :: "int option"
  section_observers :: nat
  cta_listeners :: nat
  form_listeners :: nat
  eventAnalytics :: bool
  banner_timer :: "int option"
  banners :: nat
  banner_removals :: "int list"

definition opt_str :: "string option \<Rightarrow> jsval" where
  "opt_str v = (case v of None \<Rightarrow> JNull | Some s \<Rightarrow> JStr s)"


section \<open>The analytics script\<close>

definition sectionVisibilityThreshold :: real where
  "sectionVisibilityThreshold = 1 / 2"

definition sectionEngagementTime :: int where
  "sectionEngagementTime = 2000"

definition user_consent :: "world \<Rightarrow> bool" where
  "user_consent w = hasUserConsent (document_cookie (jar w)) (local_store w)"

definition getUTMParams :: "page \<Rightarrow> obj" where
  "getUTMParams pg =
     (let params = URLSearchParams (location_search pg) in
      [(''source'', js_or (opt_str (params_get params ''utm_source'')) JNull),
       (''medium'', js_or (opt_str (params_get params ''utm_medium'')) JNull),
       (''campaign'', js_or (opt_str (params_get params ''utm_campaign'')) JNull),
       (''content'', js_or (opt_str (params_get params ''utm_content'')) JNull),
       (''term'', js_or (opt_str (params_get params ''utm_term'')) JNull)])"

definition detectQRScan :: "page \<Rightarrow> bool" where
  "detectQRScan pg =
     (params_get (URLSearchParams (location_search pg)) ''utm_medium'' = Some ''qr'')"

definition getCampaignContext :: "world \<Rightarrow> obj" where
  "getCampaignContext w =
     spread [(''analyticsId'', analyticsId w), (''isQR'', JBool (isQR w))] (utmParams w)"

definition sendVercelEvent :: "string \<Rightarrow> obj \<Rightarrow> world \<Rightarrow> world" where
  "sendVercelEvent eventName properties w =
     (case va w of
        None \<Rightarrow> w
      | Some calls \<Rightarrow>
          w\<lparr>va := Some (calls @
            [(eventName,
              spread (spread properties
                        [(''analytics_id'', analyticsId w), (''is_qr'', JBool (isQR w))])
                     (utmParams w))])\<rparr>)"

definition sendHubSpotEvent :: "string \<Rightarrow> obj \<Rightarrow> world \<Rightarrow> world" where
  "sendHubSpotEvent eventName properties w =
     (if \<not> user_consent w then w
      else (case hsq w of
              None \<Rightarrow> w
            | Some q \<Rightarrow>
                w\<lparr>hsq := Some (q @
                  [(eventName,
                    spread properties
                      [(''analytics_id'', analyticsId w),
                       (''is_qr'', JBool (isQR w)),
                       (''campaign'', obj_get (utmParams w) ''campaign''),
                       (''source'', obj_get (utmParams w) ''source''),
                       (''medium'', obj_get (utmParams w) ''medium'')])])\<rparr>))"

definition trackQRLanding :: "world \<Rightarrow> world" where
  "trackQRLanding w =
     (if isQR w then
        sendHubSpotEvent ''QR Code Scan''
          [(''event_type'', JStr ''qr_landing''),
           (''campaign'', js_or (obj_get (utmParams w) ''campaign'') (JStr ''unknown'')),
           (''source'', js_or (obj_get (utmParams w) ''source'') (JStr ''unknown'')),
           (''landing_page'', analyticsId w)]
          (sendVercelEvent ''qr_scan_landing''
             [(''campaign'', js_or (obj_get (utmParams w) ''campaign'') (JStr ''unknown'')),
              (''source'', js_or (obj_get (utmParams w) ''source'') (JStr ''unknown''))]
             w)
      else w)"

text \<open>
  \<open>sanitizeURL\<close>. The platform's \<open>new URL(url)\<close> is a parameter: \<open>pathname_of url\<close> is
  \<open>Some\<close> of the \<open>pathname\<close> of the parsed address, \<open>None\<close> when the constructor throws.
\<close>

definition sanitizeURL :: "(string \<Rightarrow> string option) \<Rightarrow> string \<Rightarrow> string" where
  "sanitizeURL pathname_of url = (case pathname_of url of Some p \<Rightarrow> p | None \<Rightarrow> ''/'')"

definition trackPageView :: "(string \<Rightarrow> string option) \<Rightarrow> page \<Rightarrow> world \<Rightarrow> world" where
  "trackPageView pathname_of pg w =
     (let sanitizedPath = sanitizeURL pathname_of (location_href pg);
          sanitizedReferrer =
            (if referrer pg \<noteq> [] then sanitizeURL pathname_of (referrer pg) else ''direct'')
      in sendHubSpotEvent ''Landing Page View''
           [(''event_type'', JStr ''page_view''),
            (''page_url'', JStr sanitizedPath),
            (''page_title'', JStr (title pg)),
            (''referrer'', JStr sanitizedReferrer)]
           (sendVercelEvent ''page_view''
              [(''page'', JStr sanitizedPath), (''title'', JStr (title pg))]
              w))"

text \<open>
  \<open>Math.round((Date.now() - state.pageLoadTime) / 1000)\<close>: rounding to the nearest
  integer, halves upwards; \<open>NaN\<close> while \<open>pageLoadTime\<close> is undefined.
\<close>

definition time_to_view :: "world \<Rightarrow> jsval" where
  "time_to_view w =
     (case pageLoadTime w of None \<Rightarrow> JNaN | Some t \<Rightarrow> JNum ((now w - t + 500) div 1000))"

definition trackSectionEngagement :: "string \<Rightarrow> string \<Rightarrow> world \<Rightarrow> world" where
  "trackSectionEngagement sectionId sectionName w =
     (if sectionId \<in> trackedSections w then w
      else
        sendHubSpotEvent ''Section Engagement''
          [(''event_type'', JStr ''section_engagement''),
           (''section_id'', JStr sectionId),
           (''section_name'', JStr sectionName),
           (''engagement_threshold'', JStr ''50% visible for 2s'')]
          (sendVercelEvent ''section_engagement''
             [(''section_id'', JStr sectionId),
              (''section_name'', JStr sectionName),
              (''time_to_view'', time_to_view w)]
             (w\<lparr>trackedSections := insert sectionId (trackedSections w)\<rparr>)))"

definition trackCTAClick :: "string \<Rightarrow> string \<Rightarrow> world \<Rightarrow> world" where
  "trackCTAClick ctaId ctaType w =
     sendHubSpotEvent ''CTA Click''
       [(''event_type'', JStr ''cta_click''),
        (''cta_id'', JStr ctaId),
        (''cta_type'', JStr ctaType),
        (''cta_location'', JStr ''landing_page'')]
       (sendVercelEvent ''cta_conversion''
          [(''cta_id'', JStr ctaId), (''cta_type'', JStr ctaType)] w)"

definition trackFormSubmit :: "string \<Rightarrow> world \<Rightarrow> world" where
  "trackFormSubmit formType w =
     sendHubSpotEvent ''Form Submission''
       [(''event_type'', JStr ''form_submission''),
        (''form_type'', JStr formType),
        (''conversion_type'', JStr ''lead_capture'')]
       (sendVercelEvent ''form_submission'' [(''form_type'', JStr formType)] w)"

subsection \<open>The section observer and its timers\<close>

text \<open>
  One entry of an \<open>IntersectionObserver\<close> callback: the \<open>data-track-section\<close> attribute
  and the \<open>id\<close> of the target (empty when it has none), and the two fields the callback
  reads.
\<close>

record entry =
  target_section :: string
  target_id :: string
  isIntersecting :: bool
  intersectionRatio :: real

definition handle_entry :: "entry \<Rightarrow> world \<Rightarrow> world" where
  "handle_entry e w =
     (let sectionId = target_section e;
          sectionName = (if target_id e \<noteq> [] then target_id e else sectionId)
      in if isIntersecting e \<and> intersectionRatio e \<ge> sectionVisibilityThreshold then
           (if sectionId \<notin> fst ` set (sectionTimers w) then
              w\<lparr>sectionTimers :=
                   sectionTimers w @ [(sectionId, now w + sectionEngagementTime, sectionName)]\<rparr>
            else w)
         else
           (if sectionId \<in> fst ` set (sectionTimers w) then
              w\<lparr>sectionTimers := filter (\<lambda>t. fst t \<noteq> sectionId) (sectionTimers w)\<rparr>
            else w))"

definition observer_callback :: "entry list \<Rightarrow> world \<Rightarrow> world" where
  "observer_callback entries w = fold handle_entry entries w"

text \<open>
  The body of the timeout set by the observer, run by the browser once the deadline has
  passed and only while the timeout is pending.
\<close>

definition section_timeout :: "string \<Rightarrow> world \<Rightarrow> world" where
  "section_timeout sectionId w =
     (case map_of (sectionTimers w) sectionId of
        None \<Rightarrow> w
      | Some (deadline, sectionName) \<Rightarrow>
          if deadline \<le> now w then
            (let w' = trackSectionEngagement sectionId sectionName w
             in w'\<lparr>sectionTimers := filter (\<lambda>t. fst t \<noteq> sectionId) (sectionTimers w')\<rparr>)
          else w)"

definition setupSectionObserver :: "page \<Rightarrow> world \<Rightarrow> world" where
  "setupSectionObserver pg w =
     (if \<not> has_sections pg then w else w\<lparr>section_observers := Suc (section_observers w)\<rparr>)"

definition setupCTATracking :: "page \<Rightarrow> world \<Rightarrow> world" where
  "setupCTATracking pg w =
     (if \<not> has_ctas pg then w else w\<lparr>cta_listeners := Suc (cta_listeners w)\<rparr>)"

definition setupFormTracking :: "page \<Rightarrow> world \<Rightarrow> world" where
  "setupFormTracking pg w =
     (if \<not> has_forms pg then w else w\<lparr>form_listeners := Suc (form_listeners w)\<rparr>)"

subsection \<open>\<open>init\<close> and the exported consent setter\<close>

definition init :: "(string \<Rightarrow> string option) \<Rightarrow> page \<Rightarrow> world \<Rightarrow> world" where
  "init pathname_of pg w =
     (let w1 = w\<lparr>analyticsId := opt_str (campaign_attr pg)\<rparr>
      in if \<not> truthy (analyticsId w1) then w1
         else
           (let w2 = w1\<lparr>utmParams := getUTMParams pg\<rparr>;
                w3 = w2\<lparr>isQR := detectQRScan pg\<rparr>;
                w4 = w3\<lparr>pageLoadTime := Some (now w3)\<rparr>;
                w5 = trackPageView pathname_of pg w4;
                w6 = trackQRLanding w5;
                w7 = setupSectionObserver pg w6;
                w8 = setupCTATracking pg w7
            in setupFormTracking pg w8))"

text \<open>\<open>window.EventAnalytics.setConsent\<close>\<close>

definition EventAnalytics_setConsent ::
    "(string \<Rightarrow> string option) \<Rightarrow> page \<Rightarrow> jsval \<Rightarrow> world \<Rightarrow> world" where
  "EventAnalytics_setConsent pathname_of pg v w =
     (let w1 = w\<lparr>local_store :=
                   (local_store w)(''analytics-consent'' \<mapsto> (if truthy v then ''true'' else ''false''))\<rparr>
      in if truthy v then init pathname_of pg w1 else w1)"


section \<open>The consent banner script\<close>

text \<open>
  \<open>setConsent\<close>. The expiry is \<open>Date.now()\<close> plus thirty days, written with
  \<open>toUTCString\<close>, which has no milliseconds. The assigned string
  \<open>analytics-consent=value; expires=...; path=/\<close> is modelled by the cookie it stores.
\<close>

definition banner_setConsent ::
    "(string \<Rightarrow> string option) \<Rightarrow> page \<Rightarrow> string \<Rightarrow> world \<Rightarrow> world" where
  "banner_setConsent pathname_of pg v w =
     (let date = now w + 30 * 24 * 60 * 60 * 1000;
          w1 = w\<lparr>jar := store_cookie
                   \<lparr>c_name = ''analytics-consent'', c_value = v,
                    c_expires = (date div 1000) * 1000, c_path = ''/''\<rparr> (jar w)\<rparr>;
          w2 = w1\<lparr>local_store := (local_store w1)(''analytics-consent'' \<mapsto> v)\<rparr>
      in if v = ''true'' \<and> eventAnalytics w2
         then EventAnalytics_setConsent pathname_of pg (JBool True) w2
         else w2)"

definition showConsentBanner :: "world \<Rightarrow> world" where
  "showConsentBanner w = w\<lparr>banners := Suc (banners w)\<rparr>"

text \<open>
  \<open>window.handleConsentChoice\<close>: the banner found by its id is removed 300 ms later. The
  console message at the end is not modelled.
\<close>

definition handleConsentChoice ::
    "(string \<Rightarrow> string option) \<Rightarrow> page \<Rightarrow> jsval \<Rightarrow> world \<Rightarrow> world" where
  "handleConsentChoice pathname_of pg accepted w =
     (let w1 = banner_setConsent pathname_of pg (if truthy accepted then ''true'' else ''false'') w
      in if banners w1 > 0 then w1\<lparr>banner_removals := banner_removals w1 @ [now w1 + 300]\<rparr>
         else w1)"

definition existing_consent :: "world \<Rightarrow> jsval" where
  "existing_consent w = hasExistingConsent (document_cookie (jar w)) (local_store w)"

text \<open>\<open>init\<close> of the banner script\<close>

definition banner_init :: "world \<Rightarrow> world" where
  "banner_init w =
     (if \<not> truthy (existing_consent w)
      then w\<lparr>banner_timer := Some (now w + 1000)\<rparr>
      else w)"


section \<open>Page loads and browser events\<close>

text \<open>
  A page load starts from a fresh document and fresh script state; the cookie store, the
  local store and the clock carry over. The banner script and, where the page has it,
  the analytics script then run their \<open>init\<close>.
\<close>

definition fresh_page :: "page \<Rightarrow> world \<Rightarrow> world" where
  "fresh_page pg w =
     \<lparr>jar = jar w, local_store = local_store w, now = now w,
      va = (if va_loaded pg then Some [] else None),
      hsq = (if hsq_loaded pg then Some [] else None),
      analyticsId = JNull, isQR = False, utmParams = [],
      trackedSections = {}, sectionTimers = [], pageLoadTime = None,
      section_observers = 0, cta_listeners = 0, form_listeners = 0,
      eventAnalytics = analytics_loaded pg,
      banner_timer = None, banners = 0, banner_removals = []\<rparr>"

definition page_load :: "(string \<Rightarrow> string option) \<Rightarrow> page \<Rightarrow> world \<Rightarrow> world" where
  "page_load pathname_of pg w =
     (let w1 = banner_init (fresh_page pg w)
      in if analytics_loaded pg then init pathname_of pg w1 else w1)"

datatype event =
    PageLoad page
  | Elapse nat
  | BannerTimeout
  | BannerRemoval
  | ConsentChoice jsval
  | AnalyticsSetConsent jsval
  | Observe "entry list"
  | SectionTimeout string
  | CtaClick string string
  | FormSubmitted "string option"

text \<open>
  One step of the browser on the current page. A callback runs only when the browser
  would run it: a timeout once its deadline has passed, an observer callback when an
  observer is installed, a listener once per installation.
\<close>

fun step :: "(string \<Rightarrow> string option) \<Rightarrow> event \<Rightarrow> page \<times> world \<Rightarrow> page \<times> world" where
  "step P (PageLoad pg') (pg, w) = (pg', page_load P pg' w)"
| "step P (Elapse n) (pg, w) = (pg, w\<lparr>now := now w + int n\<rparr>)"
| "step P BannerTimeout (pg, w) =
     (case banner_timer w of
        None \<Rightarrow> (pg, w)
      | Some d \<Rightarrow> if d \<le> now w then (pg, showConsentBanner (w\<lparr>banner_timer := None\<rparr>))
                  else (pg, w))"
| "step P BannerRemoval (pg, w) =
     (case banner_removals w of
        [] \<Rightarrow> (pg, w)
      | d # ds \<Rightarrow> if d \<le> now w then (pg, w\<lparr>banner_removals := ds, banners := banners w - 1\<rparr>)
                  else (pg, w))"
| "step P (ConsentChoice a) (pg, w) = (pg, handleConsentChoice P pg a w)"
| "step P (AnalyticsSetConsent v) (pg, w) =
     (if eventAnalytics w then (pg, EventAnalytics_setConsent P pg v w) else (pg, w))"
| "step P (Observe es) (pg, w) =
     (if section_observers w > 0 then (pg, observer_callback es w) else (pg, w))"
| "step P (SectionTimeout sid) (pg, w) = (pg, section_timeout sid w)"
| "step P (CtaClick ctaId tagName) (pg, w) =
     (pg, ((trackCTAClick ctaId (if tagName = ''A'' then ''link'' else ''button'')) ^^ cta_listeners w) w)"
| "step P (FormSubmitted attr) (pg, w) =
     (pg, ((trackFormSubmit (case attr of None \<Rightarrow> ''contact''
                                        | Some t \<Rightarrow> if t \<noteq> [] then t else ''contact''))
            ^^ form_listeners w) w)"

definition run :: "(string \<Rightarrow> string option) \<Rightarrow> event list \<Rightarrow> page \<times> world \<Rightarrow> page \<times> world" where
  "run P evs s = fold (step P) evs s"


section \<open>The form library: validator\<close>

text \<open>
  Regular expressions with character classes, matched by derivatives; enough for the
  pattern of \<open>isValidEmail\<close>, which has no flags and is anchored at both ends.
\<close>

datatype rx =
    RNone
  | REps
  | RClass "char \<Rightarrow> bool"
  | RSeq rx rx
  | RAlt rx rx
  | RStar rx

fun nullable :: "rx \<Rightarrow> bool" where
  "nullable RNone = False"
| "nullable REps = True"
| "nullable (RClass p) = False"
| "nullable (RSeq a b) = (nullable a \<and> nullable b)"
| "nullable (RAlt a b) = (nullable a \<or> nullable b)"
| "nullable (RStar a) = True"

fun deriv :: "char \<Rightarrow> rx \<Rightarrow> rx" where
  "deriv c RNone = RNone"
| "deriv c REps = RNone"
| "deriv c (RClass p) = (if p c then REps else RNone)"
| "deriv c (RSeq a b) =
     (if nullable a then RAlt (RSeq (deriv c a) b) (deriv c b) else RSeq (deriv c a) b)"
| "deriv c (RAlt a b) = RAlt (deriv c a) (deriv c b)"
| "deriv c (RStar a) = RSeq (deriv c a) (RStar a)"

definition rx_test :: "rx \<Rightarrow> string \<Rightarrow> bool" where
  "rx_test r s = nullable (fold deriv s r)"

definition RPlus :: "rx \<Rightarrow> rx" where
  "RPlus r = RSeq r (RStar r)"

definition RChr :: "char \<Rightarrow> rx" where
  "RChr c = RClass (\<lambda>x. x = c)"

text \<open>The class \<open>[^\s@]\<close>.\<close>

definition not_ws_at :: "char \<Rightarrow> bool" where
  "not_ws_at c = (\<not> is_ws c \<and> c \<noteq> CHR ''@'')"

text \<open>\<open>/^[^\s@]+@[^\s@]+\.[^\s@]+$/\<close>\<close>

definition emailRegex :: rx where
  "emailRegex =
     RSeq (RPlus (RClass not_ws_at))
       (RSeq (RChr CHR ''@'')
          (RSeq (RPlus (RClass not_ws_at))
             (RSeq (RChr CHR ''.'') (RPlus (RClass not_ws_at)))))"

definition isValidEmail :: "string \<Rightarrow> bool" where
  "isValidEmail email = rx_test emailRegex email"

definition allowedFields :: "string list" where
  "allowedFields =
     [''email'', ''firstname'', ''lastname'', ''company'', ''phone'', ''jobtitle'',
      ''event_name'', ''event_engagement_level'', ''utm_source_original'',
      ''session_duration_seconds'', ''top_interest_section_1'', ''top_interest_section_2'',
      ''top_interest_section_3'', ''cta_interaction_type'', ''linkedin_lead_source'']"

definition err_consent :: string where
  "err_consent = ''Explicit consent is required before data processing''"

definition err_email_required :: string where
  "err_email_required = ''Email is required for contact identification''"

definition err_email_invalid :: string where
  "err_email_invalid = ''Email must be valid to ensure data accuracy''"

text \<open>\<open>`Field "${key}" is not allowed`\<close>\<close>

definition err_field :: "string \<Rightarrow> string" where
  "err_field key = ''Field '' @ [CHR 0x22] @ key @ [CHR 0x22] @ '' is not allowed''"

record validation =
  isValid :: bool
  errors :: "string list"

text \<open>
  \<open>GDPRComplianceValidator.validate\<close>. The form data is an object with string values,
  given as its entries in \<open>Object.keys\<close> order; \<open>formData.email\<close> is the value stored
  under \<open>email\<close>, \<open>undefined\<close> when there is none, and is tested for truthiness.
\<close>

definition form_email :: "(string \<times> string) list \<Rightarrow> jsval" where
  "form_email formData = (case map_of formData ''email'' of None \<Rightarrow> JUndef | Some v \<Rightarrow> JStr v)"

definition email_is_valid :: "jsval \<Rightarrow> bool" where
  "email_is_valid v = (case v of JStr s \<Rightarrow> isValidEmail s | _ \<Rightarrow> False)"

definition validate :: "(string \<times> string) list \<Rightarrow> bool \<Rightarrow> validation" where
  "validate formData consentGiven =
     (let e1 = (if \<not> consentGiven then [err_consent] else []);
          e2 = e1 @ (if \<not> truthy (form_email formData) then [err_email_required] else []);
          e3 = e2 @ (if truthy (form_email formData) \<and> \<not> email_is_valid (form_email formData)
                     then [err_email_invalid] else []);
          e4 = fold (\<lambda>key errs. if key \<notin> set allowedFields then errs @ [err_field key] else errs)
                    (map fst formData) e3
      in \<lparr>isValid = (length e4 = 0), errors = e4\<rparr>)"


section \<open>The form library: submitter and form\<close>

record hs_field =
  objectTypeId :: string
  f_name :: string
  f_value :: string

record payload =
  submittedAt :: int
  payload_fields :: "hs_field list"
  hutk :: "string option"
  pageUri :: string
  pageName :: string
  consentToProcess :: bool
  consentText :: string
  communicationsValue :: bool
  communicationsText :: string
  legitimateInterestValue :: bool
  legitimateInterestBasis :: string

record request =
  url :: string
  http_method :: string
  contentType :: string
  body :: payload

text \<open>
  What \<open>fetch\<close> does with a request: it rejects (\<open>Rejected\<close>), or resolves with a response
  whose \<open>ok\<close> flag is given and whose \<open>json()\<close> resolves with a value or rejects (\<open>None\<close>).
\<close>

datatype fetch_outcome = Rejected | Resolved bool "string option"

datatype submit_result = Success string | Failure string

text \<open>
  The environment of a form: the page address and title, the cookie string, the clock,
  \<open>decodeURIComponent\<close> of the platform as a parameter (\<open>None\<close> when it throws), the
  network, and whether \<open>window.BRI_populateFormFields\<close> is set.
\<close>

record form_env =
  env_href :: string
  env_search :: string
  env_title :: string
  env_cookie :: string
  env_now :: int
  env_decode :: "string \<Rightarrow> string option"
  env_fetch :: "request \<Rightarrow> fetch_outcome"
  env_populate :: bool

record form_config =
  formGuid :: string
  eventName :: "string option"
  buttonText :: "string option"
  has_onSuccess :: bool

definition portalId :: string where
  "portalId = ''47932576''"

definition apiBaseUrl :: string where
  "apiBaseUrl = ''https://api.hsforms.com/submissions/v3/integration/submit''"

definition apiUrl :: "form_config \<Rightarrow> string" where
  "apiUrl cfg = apiBaseUrl @ ''/'' @ portalId @ ''/'' @ formGuid cfg"

text \<open>\<open>getHubSpotCookie\<close>: \<open>None\<close> at the top level is the exception of the decoder.\<close>

definition getHubSpotCookie :: "form_env \<Rightarrow> string option option" where
  "getHubSpotCookie env =
     (case env_decode env (env_cookie env) of
        None \<Rightarrow> None
      | Some decodedCookie \<Rightarrow>
          Some (case find (\<lambda>c. startsWith c ''hubspotutk='')
                          (map trim (split_on CHR '';'' decodedCookie)) of
                  None \<Rightarrow> None
                | Some c \<Rightarrow> Some (drop (length ''hubspotutk='') c)))"

definition or_default :: "string option \<Rightarrow> string \<Rightarrow> string" where
  "or_default v d = (case v of None \<Rightarrow> d | Some s \<Rightarrow> if s \<noteq> [] then s else d)"

definition buildPayload ::
    "form_env \<Rightarrow> (string \<times> string) list \<Rightarrow> string option \<times> string option
       \<Rightarrow> string option \<times> string option \<Rightarrow> payload option" where
  "buildPayload env formData context legalConsent =
     (case getHubSpotCookie env of
        None \<Rightarrow> None
      | Some cookie_value \<Rightarrow>
          Some \<lparr>submittedAt = env_now env,
                payload_fields = map (\<lambda>(name, v). \<lparr>objectTypeId = ''0-1'', f_name = name, f_value = v\<rparr>)
                             formData,
                hutk = cookie_value,
                pageUri = or_default (fst context) (env_href env),
                pageName = or_default (snd context) (env_title env),
                consentToProcess = True,
                consentText = or_default (fst legalConsent)
                  ''I agree to allow Big Rock Intelligence to store and process my personal data.'',
                communicationsValue = True,
                communicationsText = or_default (snd legalConsent)
                  (''I agree to receive marketing communications from Big Rock Intelligence ''
                   @ ''about AI governance, EU AI Act compliance, and related topics. ''
                   @ ''I can unsubscribe at any time.''),
                legitimateInterestValue = True,
                legitimateInterestBasis = ''LEGITIMATE_INTEREST_CLIENT''\<rparr>)"

text \<open>
  \<open>HubSpotFormSubmitter.submit\<close>: the result and the requests sent. Every exception
  inside the \<open>try\<close> block ends in the \<open>catch\<close> branch.
\<close>

definition submit ::
    "form_env \<Rightarrow> form_config \<Rightarrow> (string \<times> string) list \<Rightarrow> string option \<times> string option
       \<Rightarrow> string option \<times> string option \<Rightarrow> submit_result \<times> request list" where
  "submit env cfg formData context legalConsent =
     (case buildPayload env formData context legalConsent of
        None \<Rightarrow> (Failure ''Submission failed. Please try again.'', [])
      | Some p \<Rightarrow>
          (let req = \<lparr>url = apiUrl cfg, http_method = ''POST'',
                      contentType = ''application/json'', body = p\<rparr>
           in case env_fetch env req of
                Rejected \<Rightarrow> (Failure ''Submission failed. Please try again.'', [req])
              | Resolved ok js \<Rightarrow>
                  if \<not> ok then (Failure ''Submission failed. Please try again.'', [req])
                  else (case js of
                          None \<Rightarrow> (Failure ''Submission failed. Please try again.'', [req])
                        | Some result \<Rightarrow> (Success result, [req]))))"

text \<open>
  What \<open>handleSubmit\<close> changes: the \<open>display\<close> style of the form and of the two message
  boxes, the error text, the submit button, the requests sent so far and the calls of
  the \<open>onSuccess\<close> callback.
\<close>

record form_state =
  consentGiven :: bool
  form_display :: string
  success_display :: string
  error_display :: string
  error_text :: string
  btn_disabled :: bool
  btn_text :: string
  requests :: "request list"
  onSuccess_calls :: "((string \<times> string) list \<times> string) list"

definition getAnalyticsData :: "form_env \<Rightarrow> form_config \<Rightarrow> (string \<times> string) list" where
  "getAnalyticsData env cfg =
     (let urlParams = URLSearchParams (env_search env) in
      [(''event_name'',
          or_default (params_get urlParams ''event'') (or_default (eventName cfg) [])),
       (''utm_source_original'',
          or_default (params_get urlParams ''utm_source'')
            (or_default (params_get urlParams ''source'') ''direct''))])"

text \<open>
  The data object built from the entries of the form, without the consent box. The keys
  stand in the order of their first assignment; what a JavaScript object does with the
  key \<open>__proto__\<close> (no own property) and with integer-like keys (listed first) is not
  modelled.
\<close>

definition collect :: "(string \<times> string) list \<Rightarrow> (string \<times> string) list" where
  "collect entries =
     fold (\<lambda>(key, v) data. if key \<noteq> ''gdpr_consent'' then AList.update key v data else data)
          entries []"

text \<open>
  The data \<open>handleSubmit\<close> validates and submits: the collected entries, with the
  analytics fields assigned onto them when \<open>window.BRI_populateFormFields\<close> is set.
\<close>

definition form_data ::
    "form_env \<Rightarrow> form_config \<Rightarrow> (string \<times> string) list \<Rightarrow> (string \<times> string) list" where
  "form_data env cfg entries =
     (let data0 = collect entries
      in if env_populate env
         then fold (\<lambda>(k, v). AList.update k v) (getAnalyticsData env cfg) data0
         else data0)"

definition handleSubmit ::
    "form_env \<Rightarrow> form_config \<Rightarrow> (string \<times> string) list \<Rightarrow> form_state \<Rightarrow> form_state" where
  "handleSubmit env cfg entries st =
     (let st1 = st\<lparr>success_display := ''none'', error_display := ''none''\<rparr>;
          data = form_data env cfg entries;
          validation = validate data (consentGiven st1)
      in if \<not> isValid validation then
           st1\<lparr>error_text := ''Please correct the following:'' @ [CHR 0x0A]
                              @ join_with [CHR 0x0A] (errors validation),
               error_display := ''block''\<rparr>
         else
           (let st2 = st1\<lparr>btn_disabled := True, btn_text := ''Submitting...''\<rparr>;
                (result, sent) =
                   submit env cfg data (Some (env_href env), Some (env_title env))
                     (Some ''I agree to allow Big Rock Intelligence to store and process my personal data.'',
                      Some ''I agree to receive marketing communications from Big Rock Intelligence.'');
                st3 = st2\<lparr>requests := requests st2 @ sent\<rparr>
            in case result of
                 Success d \<Rightarrow>
                   (let st4 = st3\<lparr>form_display := ''none'', success_display := ''block''\<rparr>
                    in if has_onSuccess cfg
                       then st4\<lparr>onSuccess_calls := onSuccess_calls st4 @ [(data, d)]\<rparr>
                       else st4)
               | Failure e \<Rightarrow>
                   st3\<lparr>error_text :=
                         ''Submission failed. Please try again or contact james@bigrock-intel.ai'',
                       error_display := ''block'',
                       btn_disabled := False,
                       btn_text := or_default (buttonText cfg) ''Submit''\<rparr>))"


section \<open>Notions of the specification\<close>

subsection \<open>The stored consent value\<close>

text \<open>
  The specification speaks of the value a storage location holds for the consent key.
  For the cookie string this is the usual reading of \<open>document.cookie\<close>: the segments
  between semicolons, trimmed, each a name and a value separated by the first \<open>=\<close>
  (a segment without \<open>=\<close> is a value without a name); the first pair of a name counts.
  These definitions follow the specification, not the code.
\<close>

definition spec_cookie_pair :: "string \<Rightarrow> string \<times> string" where
  "spec_cookie_pair t =
     (if CHR ''='' \<in> set t
      then (takeWhile (\<lambda>c. c \<noteq> CHR ''='') t, drop 1 (dropWhile (\<lambda>c. c \<noteq> CHR ''='') t))
      else ([], t))"

definition spec_cookie_pairs :: "string \<Rightarrow> (string \<times> string) list" where
  "spec_cookie_pairs ck = map (\<lambda>seg. spec_cookie_pair (trim seg)) (split_on CHR '';'' ck)"

definition spec_cookie_value :: "string \<Rightarrow> string \<Rightarrow> string option" where
  "spec_cookie_value ck name = map_of (spec_cookie_pairs ck) name"

text \<open>"Already decided": either location holds any value for the consent key.\<close>

definition spec_decided :: "string \<Rightarrow> (string \<rightharpoonup> string) \<Rightarrow> bool" where
  "spec_decided ck ls =
     (spec_cookie_value ck ''analytics-consent'' \<noteq> None \<or> ls ''analytics-consent'' \<noteq> None)"

text \<open>"Granted": the stored value equals \<open>true\<close> in at least one location.\<close>

definition spec_granted :: "string \<Rightarrow> (string \<rightharpoonup> string) \<Rightarrow> bool" where
  "spec_granted ck ls =
     (spec_cookie_value ck ''analytics-consent'' = Some ''true''
      \<or> ls ''analytics-consent'' = Some ''true'')"


text \<open>"Already decided", for the stores of a state.\<close>

definition decided :: "world \<Rightarrow> bool" where
  "decided w = spec_decided (document_cookie (jar w)) (local_store w)"

subsection \<open>Queries\<close>

text \<open>
  A query string written out from its parameters, and the text that stands for itself in
  a query (no \<open>&\<close>, \<open>=\<close>, \<open>%\<close> or \<open>+\<close>).
\<close>

definition query_string :: "(string \<times> string) list \<Rightarrow> string" where
  "query_string ps = ''?'' @ join_with ''&'' (map (\<lambda>(k, v). k @ ''='' @ v) ps)"

definition plain :: "string \<Rightarrow> bool" where
  "plain s =
     list_all (\<lambda>c. c \<noteq> CHR ''&'' \<and> c \<noteq> CHR ''='' \<and> c \<noteq> CHR ''%'' \<and> c \<noteq> CHR ''+'') s"

subsection \<open>Requests\<close>

text \<open>A request that does not succeed: the transport throws, or the status is not a success.\<close>

definition non_success :: "fetch_outcome \<Rightarrow> bool" where
  "non_success r = (case r of Rejected \<Rightarrow> True | Resolved ok js \<Rightarrow> \<not> ok)"

subsection \<open>Visibility\<close>

text \<open>
  The continuously visible duration of a section. A section is visible while the entries
  the browser reports for it are intersecting with a ratio of at least the visibility
  threshold. Reading a sequence of events from a clock value on, \<open>visible_since\<close> gives
  the time since which a section has been visible without interruption at the end of
  the sequence, \<open>None\<close> when it is not visible then; a page load starts afresh. These
  definitions follow the specification, not the code.
\<close>

definition entry_visible :: "entry \<Rightarrow> bool" where
  "entry_visible e = (isIntersecting e \<and> sectionVisibilityThreshold \<le> intersectionRatio e)"

definition seen_entry :: "int \<Rightarrow> entry \<Rightarrow> (string \<rightharpoonup> int) \<Rightarrow> (string \<rightharpoonup> int)" where
  "seen_entry clock e vs =
     (if entry_visible e
      then (case vs (target_section e) of
              None \<Rightarrow> vs(target_section e \<mapsto> clock)
            | Some t \<Rightarrow> vs)
      else vs(target_section e := None))"

fun seen_event :: "event \<Rightarrow> int \<times> (string \<rightharpoonup> int) \<Rightarrow> int \<times> (string \<rightharpoonup> int)" where
  "seen_event (PageLoad pg) (clock, vs) = (clock, Map.empty)"
| "seen_event (Elapse n) (clock, vs) = (clock + int n, vs)"
| "seen_event (Observe es) (clock, vs) = (clock, fold (seen_entry clock) es vs)"
| "seen_event e (clock, vs) = (clock, vs)"

definition visible_since :: "int \<Rightarrow> event list \<Rightarrow> string \<Rightarrow> int option" where
  "visible_since clock evs sid = snd (fold seen_event evs (clock, Map.empty)) sid"

text \<open>
  The invariant that ties the pending timers to the visibility read off the events: the
  clocks agree, no section is visible since a time in the future, every pending timer
  belongs to a section that has been visible for the whole dwell time when the deadline
  comes, and without an observer there is no timer.
\<close>

definition dwell_inv :: "world \<Rightarrow> int \<times> (string \<rightharpoonup> int) \<Rightarrow> bool" where
  "dwell_inv w g =
     (now w = fst g \<and>
      (\<forall>sid t. snd g sid = Some t \<longrightarrow> t \<le> fst g) \<and>
      (\<forall>sid d nm. (sid, d, nm) \<in> set (sectionTimers w) \<longrightarrow>
          (\<exists>t. snd g sid = Some t \<and> t + sectionEngagementTime \<le> d)) \<and>
      (section_observers w = 0 \<longrightarrow> sectionTimers w = []))"

subsection \<open>Engagement events\<close>

text \<open>
  The engagement events of a section that a sink has received on the current page: the
  entries of the log with the given event name whose \<open>section_id\<close> property is the
  identifier. The generic sink names them \<open>section_engagement\<close>, the CRM sink
  \<open>Section Engagement\<close>.
\<close>

definition engagement_events :: "string \<Rightarrow> string \<Rightarrow> (string \<times> obj) list option \<Rightarrow> nat" where
  "engagement_events name sid sent =
     length (filter (\<lambda>ev. fst ev = name \<and> obj_get (snd ev) ''section_id'' = JStr sid)
                    (case sent of None \<Rightarrow> [] | Some l \<Rightarrow> l))"

definition engagements_va :: "string \<Rightarrow> world \<Rightarrow> nat" where
  "engagements_va sid w = engagement_events ''section_engagement'' sid (va w)"

definition engagements_hsq :: "string \<Rightarrow> world \<Rightarrow> nat" where
  "engagements_hsq sid w = engagement_events ''Section Engagement'' sid (hsq w)"

text \<open>
  The invariant behind "at most once": the campaign parameters have no \<open>section_id\<close>
  key, a section that is not yet tracked has no engagement event in either sink, and no
  section has more than one.
\<close>

definition once_inv :: "world \<Rightarrow> bool" where
  "once_inv w =
     (''section_id'' \<notin> fst ` set (utmParams w) \<and>
      (\<forall>sid. sid \<notin> trackedSections w \<longrightarrow>
             engagements_va sid w = 0 \<and> engagements_hsq sid w = 0) \<and>
      (\<forall>sid. engagements_va sid w \<le> 1 \<and> engagements_hsq sid w \<le> 1))"


section \<open>Concrete pages and states\<close>

text \<open>
  A landing page reached through a QR code, with both vendor globals and the analytics
  script; a browser with empty stores that has just opened a document; and a parser
  that knows one address.
\<close>

definition ex_page :: page where
  "ex_page =
     \<lparr>location_href = ''https://example.org/event?utm_medium=qr&utm_source=flyer'',
      location_search = ''?utm_medium=qr&utm_source=flyer'',
      referrer = '''',
      title = ''AI Week'',
      campaign_attr = Some ''AI_Week_Frankfurt_2025'',
      va_loaded = True, hsq_loaded = True, analytics_loaded = True,
      has_sections = True, has_ctas = True, has_forms = True\<rparr>"

definition ex_world :: world where
  "ex_world =
     \<lparr>jar = [], local_store = Map.empty, now = 0,
      va = Some [], hsq = Some [],
      analyticsId = JNull, isQR = False, utmParams = [],
      trackedSections = {}, sectionTimers = [], pageLoadTime = None,
      section_observers = 0, cta_listeners = 0, form_listeners = 0,
      eventAnalytics = True,
      banner_timer = None, banners = 0, banner_removals = []\<rparr>"

definition ex_pathname_of :: "string \<Rightarrow> string option" where
  "ex_pathname_of u =
     (if u = ''https://example.org/event?utm_medium=qr&utm_source=flyer'' then Some ''/event''
      else None)"

text \<open>The same page without the campaign attribute.\<close>

definition ex_page_no_campaign :: page where
  "ex_page_no_campaign = ex_page\<lparr>campaign_attr := None\<rparr>"

text \<open>The same page reached by an address with two \<open>utm_medium\<close> parameters.\<close>

definition ex_page_two_media :: page where
  "ex_page_two_media =
     ex_page\<lparr>location_href := ''https://example.org/event?utm_medium=email&utm_medium=qr'',
             location_search := ''?utm_medium=email&utm_medium=qr''\<rparr>"

text \<open>The same browser on a page without the analytics script.\<close>

definition ex_no_analytics :: world where
  "ex_no_analytics = ex_world\<lparr>eventAnalytics := False\<rparr>"

text \<open>The same browser after the visitor has accepted.\<close>

definition ex_granted :: world where
  "ex_granted = ex_world\<lparr>local_store := [''analytics-consent'' \<mapsto> ''true'']\<rparr>"


text \<open>The same browser, without consent, once the click listeners are installed.\<close>

definition ex_listening :: world where
  "ex_listening = ex_world\<lparr>cta_listeners := 1\<rparr>"

text \<open>
  A form on that page: the quick-email form, an idle form state whose consent box is
  ticked, and a network that answers every request with a non-success status.
\<close>

definition ex_config :: form_config where
  "ex_config =
     \<lparr>formGuid = ''bri-quick-email-capture'', eventName = Some ''AI Week Frankfurt 2025'',
      buttonText = Some ''Send Checklist'', has_onSuccess = True\<rparr>"

definition ex_env :: form_env where
  "ex_env =
     \<lparr>env_href = ''https://example.org/event'', env_search = [], env_title = ''AI Week'',
      env_cookie = ''hubspotutk=abc123'', env_now = 1000,
      env_decode = Some, env_fetch = (\<lambda>req. Resolved False None), env_populate = False\<rparr>"

definition ex_form :: form_state where
  "ex_form =
     \<lparr>consentGiven = True, form_display = [], success_display = ''none'',
      error_display = ''none'', error_text = [], btn_disabled = False,
      btn_text = ''Send Checklist'', requests = [], onSuccess_calls = []\<rparr>"

text \<open>The entries of the quick-email form, filled in and with the consent box ticked.\<close>

definition ex_entries :: "(string \<times> string) list" where
  "ex_entries =
     [(''email'', ''user@example.com''),
      (''cta_interaction_type'', ''in_section_cta''),
      (''gdpr_consent'', ''on'')]"

text \<open>
  A section of that page comes into view, leaves after a second and a half, comes back
  a tenth of a second later and stays for two seconds.
\<close>

definition ex_entry :: "bool \<Rightarrow> entry" where
  "ex_entry v =
     \<lparr>target_section = ''pricing'', target_id = ''pricing-section'',
      isIntersecting = v, intersectionRatio = (if v then 3 / 4 else 0)\<rparr>"

definition ex_visits :: "event list" where
  "ex_visits =
     [Observe [ex_entry True], Elapse 1500,
      Observe [ex_entry False], Elapse 100,
      Observe [ex_entry True], Elapse 2000]"


section \<open>Frame properties of the two sinks\<close>

lemma sendVercelEvent_frame [simp]:
  "jar (sendVercelEvent n p w) = jar w"
  "local_store (sendVercelEvent n p w) = local_store w"
  "now (sendVercelEvent n p w) = now w"
  "hsq (sendVercelEvent n p w) = hsq w"
  "analyticsId (sendVercelEvent n p w) = analyticsId w"
  "isQR (sendVercelEvent n p w) = isQR w"
  "utmParams (sendVercelEvent n p w) = utmParams w"
  "trackedSections (sendVercelEvent n p w) = trackedSections w"
  "sectionTimers (sendVercelEvent n p w) = sectionTimers w"
  "pageLoadTime (sendVercelEvent n p w) = pageLoadTime w"
  "section_observers (sendVercelEvent n p w) = section_observers w"
  "cta_listeners (sendVercelEvent n p w) = cta_listeners w"
  "form_listeners (sendVercelEvent n p w) = form_listeners w"
  "eventAnalytics (sendVercelEvent n p w) = eventAnalytics w"
  "banner_timer (sendVercelEvent n p w) = banner_timer w"
  "banners (sendVercelEvent n p w) = banners w"
  "banner_removals (sendVercelEvent n p w) = banner_removals w"
  by (simp_all add: sendVercelEvent_def split: option.splits)

lemma sendHubSpotEvent_frame [simp]:
  "jar (sendHubSpotEvent n p w) = jar w"
  "local_store (sendHubSpotEvent n p w) = local_store w"
  "now (sendHubSpotEvent n p w) = now w"
  "va (sendHubSpotEvent n p w) = va w"
  "analyticsId (sendHubSpotEvent n p w) = analyticsId w"
  "isQR (sendHubSpotEvent n p w) = isQR w"
  "utmParams (sendHubSpotEvent n p w) = utmParams w"
  "trackedSections (sendHubSpotEvent n p w) = trackedSections w"
  "sectionTimers (sendHubSpotEvent n p w) = sectionTimers w"
  "pageLoadTime (sendHubSpotEvent n p w) = pageLoadTime w"
  "section_observers (sendHubSpotEvent n p w) = section_observers w"
  "cta_listeners (sendHubSpotEvent n p w) = cta_listeners w"
  "form_listeners (sendHubSpotEvent n p w) = form_listeners w"
  "eventAnalytics (sendHubSpotEvent n p w) = eventAnalytics w"
  "banner_timer (sendHubSpotEvent n p w) = banner_timer w"
  "banners (sendHubSpotEvent n p w) = banners w"
  "banner_removals (sendHubSpotEvent n p w) = banner_removals w"
  by (simp_all add: sendHubSpotEvent_def split: option.splits)

lemma user_consent_sends [simp]:
  "user_consent (sendVercelEvent n p w) = user_consent w"
  "user_consent (sendHubSpotEvent n p w) = user_consent w"
  by (simp_all add: user_consent_def)

lemmas consent_eval = user_consent_def hasUserConsent_def document_cookie_def
  consentCookie_def trim_def startsWith_def str_includes_def is_ws_def sublist_code


section \<open>Frame properties of the trackers and of \<open>init\<close>\<close>
lemma trackPageView_frame [simp]:
  "jar (trackPageView P pg w) = jar w"
  "local_store (trackPageView P pg w) = local_store w"
  "now (trackPageView P pg w) = now w"
  "analyticsId (trackPageView P pg w) = analyticsId w"
  "isQR (trackPageView P pg w) = isQR w"
  "utmParams (trackPageView P pg w) = utmParams w"
  "trackedSections (trackPageView P pg w) = trackedSections w"
  "sectionTimers (trackPageView P pg w) = sectionTimers w"
  "pageLoadTime (trackPageView P pg w) = pageLoadTime w"
  "section_observers (trackPageView P pg w) = section_observers w"
  "cta_listeners (trackPageView P pg w) = cta_listeners w"
  "form_listeners (trackPageView P pg w) = form_listeners w"
  "eventAnalytics (trackPageView P pg w) = eventAnalytics w"
  "banner_timer (trackPageView P pg w) = banner_timer w"
  "banners (trackPageView P pg w) = banners w"
  "banner_removals (trackPageView P pg w) = banner_removals w"
  by (simp_all add: trackPageView_def Let_def)

lemma trackQRLanding_frame [simp]:
  "jar (trackQRLanding w) = jar w"
  "local_store (trackQRLanding w) = local_store w"
  "now (trackQRLanding w) = now w"
  "analyticsId (trackQRLanding w) = analyticsId w"
  "isQR (trackQRLanding w) = isQR w"
  "utmParams (trackQRLanding w) = utmParams w"
  "trackedSections (trackQRLanding w) = trackedSections w"
  "sectionTimers (trackQRLanding w) = sectionTimers w"
  "pageLoadTime (trackQRLanding w) = pageLoadTime w"
  "section_observers (trackQRLanding w) = section_observers w"
  "cta_listeners (trackQRLanding w) = cta_listeners w"
  "form_listeners (trackQRLanding w) = form_listeners w"
  "eventAnalytics (trackQRLanding w) = eventAnalytics w"
  "banner_timer (trackQRLanding w) = banner_timer w"
  "banners (trackQRLanding w) = banners w"
  "banner_removals (trackQRLanding w) = banner_removals w"
  by (simp_all add: trackQRLanding_def)

lemma setup_frame [simp]:
  "jar (setupSectionObserver pg w) = jar w"
  "local_store (setupSectionObserver pg w) = local_store w"
  "now (setupSectionObserver pg w) = now w"
  "va (setupSectionObserver pg w) = va w"
  "hsq (setupSectionObserver pg w) = hsq w"
  "trackedSections (setupSectionObserver pg w) = trackedSections w"
  "sectionTimers (setupSectionObserver pg w) = sectionTimers w"
  "eventAnalytics (setupSectionObserver pg w) = eventAnalytics w"
  "banner_timer (setupSectionObserver pg w) = banner_timer w"
  "banners (setupSectionObserver pg w) = banners w"
  "banner_removals (setupSectionObserver pg w) = banner_removals w"
  "jar (setupCTATracking pg w) = jar w"
  "local_store (setupCTATracking pg w) = local_store w"
  "now (setupCTATracking pg w) = now w"
  "va (setupCTATracking pg w) = va w"
  "hsq (setupCTATracking pg w) = hsq w"
  "trackedSections (setupCTATracking pg w) = trackedSections w"
  "sectionTimers (setupCTATracking pg w) = sectionTimers w"
  "eventAnalytics (setupCTATracking pg w) = eventAnalytics w"
  "banner_timer (setupCTATracking pg w) = banner_timer w"
  "banners (setupCTATracking pg w) = banners w"
  "banner_removals (setupCTATracking pg w) = banner_removals w"
  "jar (setupFormTracking pg w) = jar w"
  "local_store (setupFormTracking pg w) = local_store w"
  "now (setupFormTracking pg w) = now w"
  "va (setupFormTracking pg w) = va w"
  "hsq (setupFormTracking pg w) = hsq w"
  "trackedSections (setupFormTracking pg w) = trackedSections w"
  "sectionTimers (setupFormTracking pg w) = sectionTimers w"
  "eventAnalytics (setupFormTracking pg w) = eventAnalytics w"
  "banner_timer (setupFormTracking pg w) = banner_timer w"
  "banners (setupFormTracking pg w) = banners w"
  "banner_removals (setupFormTracking pg w) = banner_removals w"
  by (simp_all add: setupSectionObserver_def setupCTATracking_def setupFormTracking_def)

lemma init_frame [simp]:
  "jar (init P pg w) = jar w"
  "local_store (init P pg w) = local_store w"
  "now (init P pg w) = now w"
  "trackedSections (init P pg w) = trackedSections w"
  "sectionTimers (init P pg w) = sectionTimers w"
  "eventAnalytics (init P pg w) = eventAnalytics w"
  "banner_timer (init P pg w) = banner_timer w"
  "banners (init P pg w) = banners w"
  "banner_removals (init P pg w) = banner_removals w"
  by (simp_all add: init_def Let_def)


section \<open>Reading the stored consent\<close>

lemma trim_Nil [simp]: "trim [] = []"
  by (simp add: trim_def)

lemma consentCookie_Some_iff:
  "(consentCookie ck \<noteq> None) =
   (\<exists>seg \<in> set (split_on CHR '';'' ck). prefix ''analytics-consent='' (trim seg))"
  by (auto simp: consentCookie_def startsWith_def find_None_iff)

lemma consentCookie_nonempty: "consentCookie ck = Some c \<Longrightarrow> c \<noteq> []"
  by (auto simp: consentCookie_def startsWith_def find_Some_iff)

lemma pair_name_iff:
  "(fst (spec_cookie_pair t) = ''analytics-consent'') = prefix ''analytics-consent='' t"
proof (cases "CHR ''='' \<in> set t")
  case False
  then have "\<not> prefix ''analytics-consent='' t"
    by (auto simp: prefix_def)
  with False show ?thesis by (simp add: spec_cookie_pair_def)
next
  case True
  let ?a = "takeWhile (\<lambda>c. c \<noteq> CHR ''='') t"
  let ?b = "dropWhile (\<lambda>c. c \<noteq> CHR ''='') t"
  have split: "t = ?a @ ?b" by simp
  from True have ne: "?b \<noteq> []" by simp
  then have "hd ?b = CHR ''=''"
    using hd_dropWhile [of "\<lambda>c. c \<noteq> CHR ''=''" t] by simp
  with ne obtain r where b: "?b = CHR ''='' # r"
    by (cases ?b) auto
  have fst_eq: "fst (spec_cookie_pair t) = ?a"
    using True by (simp add: spec_cookie_pair_def)
  show ?thesis
  proof
    assume "fst (spec_cookie_pair t) = ''analytics-consent''"
    with fst_eq have "?a = ''analytics-consent''" by simp
    with b have "?a @ ?b = ''analytics-consent'' @ CHR ''='' # r" by simp
    with split have "t = ''analytics-consent'' @ CHR ''='' # r" by simp
    then show "prefix ''analytics-consent='' t" by (simp add: prefix_def)
  next
    assume "prefix ''analytics-consent='' t"
    then obtain r' where "t = ''analytics-consent'' @ CHR ''='' # r'"
      by (auto simp: prefix_def)
    then have "?a = ''analytics-consent''"
      by simp
    with fst_eq show "fst (spec_cookie_pair t) = ''analytics-consent''"
      by simp
  qed
qed

lemma spec_cookie_value_Some_iff:
  "(spec_cookie_value ck ''analytics-consent'' \<noteq> None) = (consentCookie ck \<noteq> None)"
proof -
  have "(spec_cookie_value ck ''analytics-consent'' \<noteq> None)
        = (''analytics-consent'' \<in> fst ` set (spec_cookie_pairs ck))"
    by (simp add: spec_cookie_value_def map_of_eq_None_iff)
  also have "\<dots> = (\<exists>seg \<in> set (split_on CHR '';'' ck).
                      fst (spec_cookie_pair (trim seg)) = ''analytics-consent'')"
    by (force simp: spec_cookie_pairs_def)
  also have "\<dots> = (\<exists>seg \<in> set (split_on CHR '';'' ck). prefix ''analytics-consent='' (trim seg))"
    by (simp only: pair_name_iff)
  finally show ?thesis by (simp only: consentCookie_Some_iff)
qed

lemma decided_iff: "truthy (hasExistingConsent ck ls) = spec_decided ck ls"
proof (cases "consentCookie ck")
  case None
  then show ?thesis
    using spec_cookie_value_Some_iff [of ck]
    by (simp add: hasExistingConsent_def spec_decided_def js_or_def)
next
  case (Some c)
  then show ?thesis
    using spec_cookie_value_Some_iff [of ck] consentCookie_nonempty [OF Some]
    by (simp add: hasExistingConsent_def spec_decided_def js_or_def)
qed

lemmas cookie_eval = spec_cookie_value_def spec_cookie_pairs_def spec_cookie_pair_def
  document_cookie_def trim_def is_ws_def

lemma store_cookie_mem: "c \<in> set (store_cookie c jr)"
  by (induction jr) auto

lemma init_analyticsId: "analyticsId (init P pg w) = opt_str (campaign_attr pg)"
  by (simp add: init_def Let_def setupSectionObserver_def setupCTATracking_def setupFormTracking_def)

lemma EventAnalytics_setConsent_frame [simp]:
  "jar (EventAnalytics_setConsent P pg v w) = jar w"
  "local_store (EventAnalytics_setConsent P pg v w) =
     (local_store w)(''analytics-consent'' \<mapsto> (if truthy v then ''true'' else ''false''))"
  "now (EventAnalytics_setConsent P pg v w) = now w"
  "trackedSections (EventAnalytics_setConsent P pg v w) = trackedSections w"
  "sectionTimers (EventAnalytics_setConsent P pg v w) = sectionTimers w"
  "eventAnalytics (EventAnalytics_setConsent P pg v w) = eventAnalytics w"
  "banner_timer (EventAnalytics_setConsent P pg v w) = banner_timer w"
  "banners (EventAnalytics_setConsent P pg v w) = banners w"
  "banner_removals (EventAnalytics_setConsent P pg v w) = banner_removals w"
  by (simp_all add: EventAnalytics_setConsent_def Let_def)

lemma banner_setConsent_frame [simp]:
  "jar (banner_setConsent P pg v w) =
     store_cookie \<lparr>c_name = ''analytics-consent'', c_value = v,
                   c_expires = ((now w + 2592000000) div 1000) * 1000, c_path = ''/''\<rparr> (jar w)"
  "local_store (banner_setConsent P pg v w) = (local_store w)(''analytics-consent'' \<mapsto> v)"
  "now (banner_setConsent P pg v w) = now w"
  "trackedSections (banner_setConsent P pg v w) = trackedSections w"
  "sectionTimers (banner_setConsent P pg v w) = sectionTimers w"
  "eventAnalytics (banner_setConsent P pg v w) = eventAnalytics w"
  "banner_timer (banner_setConsent P pg v w) = banner_timer w"
  "banners (banner_setConsent P pg v w) = banners w"
  "banner_removals (banner_setConsent P pg v w) = banner_removals w"
  by (simp_all add: banner_setConsent_def Let_def)

lemma map_of_map_find:
  "map_of (map f xs) k = Some v \<Longrightarrow> \<exists>x. find (\<lambda>x. fst (f x) = k) xs = Some x \<and> snd (f x) = v"
proof (induction xs)
  case Nil
  then show ?case by simp
next
  case (Cons a xs)
  then show ?case by (cases "f a") (auto split: if_splits)
qed

lemma trim_decompose: "\<exists>a b. seg = a @ trim seg @ b"
proof -
  let ?d = "dropWhile is_ws seg"
  have "seg = takeWhile is_ws seg @ ?d" by simp
  moreover have "rev ?d = takeWhile is_ws (rev ?d) @ dropWhile is_ws (rev ?d)" by simp
  then have "?d = rev (dropWhile is_ws (rev ?d)) @ rev (takeWhile is_ws (rev ?d))"
    by (metis rev_append rev_rev_ident)
  then have "?d = trim seg @ rev (takeWhile is_ws (rev ?d))"
    by (simp add: trim_def)
  ultimately have "seg = takeWhile is_ws seg @ trim seg @ rev (takeWhile is_ws (rev ?d))"
    by simp
  then show ?thesis by blast
qed

lemma pair_value_prefix:
  assumes "prefix ''analytics-consent='' t"
  shows "t = ''analytics-consent='' @ snd (spec_cookie_pair t)"
proof -
  from assms obtain r where t: "t = ''analytics-consent'' @ CHR ''='' # r"
    by (auto simp: prefix_def)
  have "dropWhile (\<lambda>c. c \<noteq> CHR ''='') (''analytics-consent'' @ CHR ''='' # r) = CHR ''='' # r"
    by simp
  with t have "snd (spec_cookie_pair t) = r"
    by (simp add: spec_cookie_pair_def)
  with t show ?thesis by simp
qed

lemma spec_granted_hasUserConsent:
  assumes "spec_granted ck ls"
  shows "hasUserConsent ck ls"
proof (cases "ls ''analytics-consent'' = Some ''true''")
  case True
  then show ?thesis by (simp add: hasUserConsent_def)
next
  case False
  with assms have "map_of (map (\<lambda>seg. spec_cookie_pair (trim seg)) (split_on CHR '';'' ck))
                     ''analytics-consent'' = Some ''true''"
    by (simp add: spec_granted_def spec_cookie_value_def spec_cookie_pairs_def)
  from map_of_map_find [OF this] obtain seg
    where f: "find (\<lambda>seg. fst (spec_cookie_pair (trim seg)) = ''analytics-consent'')
                   (split_on CHR '';'' ck) = Some seg"
      and v: "snd (spec_cookie_pair (trim seg)) = ''true''" by blast
  from f have cc: "consentCookie ck = Some seg"
    by (simp add: consentCookie_def startsWith_def pair_name_iff)
  from f have "fst (spec_cookie_pair (trim seg)) = ''analytics-consent''"
    by (auto simp: find_Some_iff)
  then have "prefix ''analytics-consent='' (trim seg)"
    by (simp add: pair_name_iff)
  from pair_value_prefix [OF this] v have tr: "trim seg = ''analytics-consent='' @ ''true''"
    by simp
  from trim_decompose [of seg] obtain a b where "seg = a @ trim seg @ b" by blast
  with tr have "seg = (a @ ''analytics-consent='') @ ''true'' @ b" by simp
  then have "sublist ''true'' seg"
    unfolding sublist_def by blast
  with cc show ?thesis
    by (simp add: hasUserConsent_def str_includes_def)
qed


section \<open>The two consent setters\<close>

text \<open>
  C10. For every boolean, \<open>window.EventAnalytics.setConsent\<close> leaves the cookie store as
  it is, writes \<open>true\<close> or \<open>false\<close> under the local-store key, and runs \<open>init\<close> again
  exactly when the value is true; and there is a state in which the two storage
  locations hold the same value before the call and different values after it.
\<close>

theorem EventAnalytics_setConsent_local_only:
  "jar (EventAnalytics_setConsent P pg (JBool b) w) = jar w \<and>
   local_store (EventAnalytics_setConsent P pg (JBool b) w) =
     (local_store w)(''analytics-consent'' \<mapsto> (if b then ''true'' else ''false'')) \<and>
   EventAnalytics_setConsent P pg (JBool b) w =
     (if b then init P pg
                 (w\<lparr>local_store := (local_store w)(''analytics-consent'' \<mapsto> ''true'')\<rparr>)
      else w\<lparr>local_store := (local_store w)(''analytics-consent'' \<mapsto> ''false'')\<rparr>) \<and>
   (\<exists>w0. spec_cookie_value (document_cookie (jar w0)) ''analytics-consent''
           = local_store w0 ''analytics-consent'' \<and>
         spec_cookie_value
           (document_cookie (jar (EventAnalytics_setConsent P pg (JBool b) w0))) ''analytics-consent''
           \<noteq> local_store (EventAnalytics_setConsent P pg (JBool b) w0) ''analytics-consent'')"
proof -
  let ?v = "if b then ''false'' else ''true''"
  let ?w0 = "ex_world\<lparr>jar := [\<lparr>c_name = ''analytics-consent'', c_value = ?v,
                                  c_expires = 2592000000, c_path = ''/''\<rparr>],
                        local_store := [''analytics-consent'' \<mapsto> ?v]\<rparr>"
  have ck: "spec_cookie_value (document_cookie (jar ?w0)) ''analytics-consent'' = Some ?v"
    by (simp add: cookie_eval)
  have frame: "jar (EventAnalytics_setConsent P pg (JBool b) w') = jar w'"
    "local_store (EventAnalytics_setConsent P pg (JBool b) w') =
       (local_store w')(''analytics-consent'' \<mapsto> (if b then ''true'' else ''false''))" for w'
    by (simp_all add: EventAnalytics_setConsent_def Let_def)
  have ex: "spec_cookie_value (document_cookie (jar ?w0)) ''analytics-consent''
           = local_store ?w0 ''analytics-consent'' \<and>
         spec_cookie_value
           (document_cookie (jar (EventAnalytics_setConsent P pg (JBool b) ?w0))) ''analytics-consent''
           \<noteq> local_store (EventAnalytics_setConsent P pg (JBool b) ?w0) ''analytics-consent''"
    unfolding frame using ck by simp
  have eq: "EventAnalytics_setConsent P pg (JBool b) w =
     (if b then init P pg
                 (w\<lparr>local_store := (local_store w)(''analytics-consent'' \<mapsto> ''true'')\<rparr>)
      else w\<lparr>local_store := (local_store w)(''analytics-consent'' \<mapsto> ''false'')\<rparr>)"
    by (simp add: EventAnalytics_setConsent_def Let_def)
  from frame [of w] eq ex show ?thesis by blast
qed

theorem EventAnalytics_setConsent_local_only_witness:
  "jar (EventAnalytics_setConsent ex_pathname_of ex_page (JBool False) ex_world) = [] \<and>
   local_store (EventAnalytics_setConsent ex_pathname_of ex_page (JBool False) ex_world)
     ''analytics-consent'' = Some ''false'' \<and>
   spec_cookie_value
     (document_cookie (jar (EventAnalytics_setConsent ex_pathname_of ex_page (JBool False) ex_world)))
     ''analytics-consent'' = None"
  using EventAnalytics_setConsent_local_only [of ex_pathname_of ex_page False ex_world]
  by (simp add: ex_world_def cookie_eval)

text \<open>
  C6, as amended. For every boolean choice, \<open>handleConsentChoice\<close> writes \<open>true\<close> or
  \<open>false\<close> under the local-store key and stores the cookie \<open>analytics-consent\<close> with that
  value, path \<open>/\<close> and an expiry thirty days ahead (to the second); and \<open>setConsent\<close>
  calls \<open>EventAnalytics.setConsent(true)\<close> exactly when the choice is to grant and
  \<open>window.EventAnalytics\<close> is defined.
\<close>

theorem handleConsentChoice_stores_choice:
  "let v = (if b then ''true'' else ''false'');
       c = \<lparr>c_name = ''analytics-consent'', c_value = v,
            c_expires = ((now w + 30 * 24 * 60 * 60 * 1000) div 1000) * 1000, c_path = ''/''\<rparr>;
       w2 = w\<lparr>jar := store_cookie c (jar w),
              local_store := (local_store w)(''analytics-consent'' \<mapsto> v)\<rparr>;
       w' = handleConsentChoice P pg (JBool b) w
   in local_store w' = (local_store w)(''analytics-consent'' \<mapsto> v) \<and>
      jar w' = store_cookie c (jar w) \<and>
      c \<in> set (jar w') \<and>
      banner_setConsent P pg v w =
        (if b \<and> eventAnalytics w then EventAnalytics_setConsent P pg (JBool True) w2 else w2)"
proof -
  have "banner_setConsent P pg (if b then ''true'' else ''false'') w =
        (if b \<and> eventAnalytics w
         then EventAnalytics_setConsent P pg (JBool True)
                (w\<lparr>jar := store_cookie \<lparr>c_name = ''analytics-consent'',
                         c_value = (if b then ''true'' else ''false''),
                         c_expires = ((now w + 30 * 24 * 60 * 60 * 1000) div 1000) * 1000,
                         c_path = ''/''\<rparr> (jar w),
                    local_store := (local_store w)(''analytics-consent'' \<mapsto>
                         (if b then ''true'' else ''false''))\<rparr>)
         else w\<lparr>jar := store_cookie \<lparr>c_name = ''analytics-consent'',
                         c_value = (if b then ''true'' else ''false''),
                         c_expires = ((now w + 30 * 24 * 60 * 60 * 1000) div 1000) * 1000,
                         c_path = ''/''\<rparr> (jar w),
                    local_store := (local_store w)(''analytics-consent'' \<mapsto>
                         (if b then ''true'' else ''false''))\<rparr>)"
    by (simp add: banner_setConsent_def Let_def)
  then show ?thesis
    by (simp add: Let_def handleConsentChoice_def store_cookie_mem)
qed

theorem handleConsentChoice_stores_choice_witness:
  "local_store (handleConsentChoice ex_pathname_of ex_page (JBool False) ex_world)
     ''analytics-consent'' = Some ''false'' \<and>
   jar (handleConsentChoice ex_pathname_of ex_page (JBool False) ex_world) =
     [\<lparr>c_name = ''analytics-consent'', c_value = ''false'',
       c_expires = 2592000000, c_path = ''/''\<rparr>]"
  using handleConsentChoice_stores_choice [of False ex_world ex_pathname_of ex_page]
  by (simp add: Let_def ex_world_def)

text \<open>
  C6 as stated fails where the page has no analytics component: the visitor accepts and
  no call of \<open>EventAnalytics.setConsent(true)\<close> takes place.
\<close>

theorem banner_signal_counterexample:
  "\<not> eventAnalytics ex_no_analytics \<and>
   banner_setConsent ex_pathname_of ex_page ''true'' ex_no_analytics =
     ex_no_analytics\<lparr>jar := store_cookie
          \<lparr>c_name = ''analytics-consent'', c_value = ''true'',
           c_expires = ((now ex_no_analytics + 30 * 24 * 60 * 60 * 1000) div 1000) * 1000,
           c_path = ''/''\<rparr> (jar ex_no_analytics),
        local_store := (local_store ex_no_analytics)(''analytics-consent'' \<mapsto> ''true'')\<rparr> \<and>
   banner_setConsent ex_pathname_of ex_page ''true'' ex_no_analytics \<noteq>
   EventAnalytics_setConsent ex_pathname_of ex_page (JBool True)
     (ex_no_analytics\<lparr>jar := store_cookie
          \<lparr>c_name = ''analytics-consent'', c_value = ''true'',
           c_expires = ((now ex_no_analytics + 30 * 24 * 60 * 60 * 1000) div 1000) * 1000,
           c_path = ''/''\<rparr> (jar ex_no_analytics),
        local_store := (local_store ex_no_analytics)(''analytics-consent'' \<mapsto> ''true'')\<rparr>)"
proof (intro conjI)
  show na: "\<not> eventAnalytics ex_no_analytics"
    by (simp add: ex_no_analytics_def)
  show eq: "banner_setConsent ex_pathname_of ex_page ''true'' ex_no_analytics =
     ex_no_analytics\<lparr>jar := store_cookie
          \<lparr>c_name = ''analytics-consent'', c_value = ''true'',
           c_expires = ((now ex_no_analytics + 30 * 24 * 60 * 60 * 1000) div 1000) * 1000,
           c_path = ''/''\<rparr> (jar ex_no_analytics),
        local_store := (local_store ex_no_analytics)(''analytics-consent'' \<mapsto> ''true'')\<rparr>"
    using na by (simp add: banner_setConsent_def Let_def)
  have l: "analyticsId (banner_setConsent ex_pathname_of ex_page ''true'' ex_no_analytics) = JNull"
    by (simp add: banner_setConsent_def Let_def ex_no_analytics_def ex_world_def)
  have r: "analyticsId (EventAnalytics_setConsent ex_pathname_of ex_page (JBool True) w)
           = JStr ''AI_Week_Frankfurt_2025''" for w
    by (simp add: EventAnalytics_setConsent_def Let_def init_analyticsId opt_str_def ex_page_def)
  show "banner_setConsent ex_pathname_of ex_page ''true'' ex_no_analytics \<noteq>
   EventAnalytics_setConsent ex_pathname_of ex_page (JBool True)
     (ex_no_analytics\<lparr>jar := store_cookie
          \<lparr>c_name = ''analytics-consent'', c_value = ''true'',
           c_expires = ((now ex_no_analytics + 30 * 24 * 60 * 60 * 1000) div 1000) * 1000,
           c_path = ''/''\<rparr> (jar ex_no_analytics),
        local_store := (local_store ex_no_analytics)(''analytics-consent'' \<mapsto> ''true'')\<rparr>)"
  proof
    assume "banner_setConsent ex_pathname_of ex_page ''true'' ex_no_analytics =
      EventAnalytics_setConsent ex_pathname_of ex_page (JBool True)
        (ex_no_analytics\<lparr>jar := store_cookie
          \<lparr>c_name = ''analytics-consent'', c_value = ''true'',
           c_expires = ((now ex_no_analytics + 30 * 24 * 60 * 60 * 1000) div 1000) * 1000,
           c_path = ''/''\<rparr> (jar ex_no_analytics),
        local_store := (local_store ex_no_analytics)(''analytics-consent'' \<mapsto> ''true'')\<rparr>)"
    with l r show False by simp
  qed
qed

text \<open>
  C5. The first half holds for every state of the two locations (\<open>decided_iff\<close>), and
  so does one direction of the second: where a location holds the value \<open>true\<close>,
  \<open>hasUserConsent()\<close> is true (\<open>spec_granted_hasUserConsent\<close>). The other direction
  fails. With the cookie \<open>analytics-consent=untrue\<close> and an empty local store, the
  stored value is \<open>untrue\<close>, no location holds the value \<open>true\<close>, and
  \<open>hasUserConsent()\<close> is true: the cookie is tested with \<open>includes\<close>, the local
  store with \<open>===\<close>.
\<close>

theorem hasUserConsent_substring_cookie:
  "hasUserConsent ''analytics-consent=untrue'' Map.empty \<and>
   spec_cookie_value ''analytics-consent=untrue'' ''analytics-consent'' = Some ''untrue'' \<and>
   \<not> spec_granted ''analytics-consent=untrue'' Map.empty"
  by (simp add: hasUserConsent_def consentCookie_def startsWith_def str_includes_def sublist_code
        spec_granted_def spec_cookie_value_def spec_cookie_pairs_def spec_cookie_pair_def
        trim_def is_ws_def)


section \<open>The banner and the stored decision\<close>


lemma trackSectionEngagement_frame [simp]:
  "jar (trackSectionEngagement sid nm w) = jar w"
  "local_store (trackSectionEngagement sid nm w) = local_store w"
  "now (trackSectionEngagement sid nm w) = now w"
  "sectionTimers (trackSectionEngagement sid nm w) = sectionTimers w"
  "eventAnalytics (trackSectionEngagement sid nm w) = eventAnalytics w"
  "banner_timer (trackSectionEngagement sid nm w) = banner_timer w"
  "banners (trackSectionEngagement sid nm w) = banners w"
  "banner_removals (trackSectionEngagement sid nm w) = banner_removals w"
  by (simp_all add: trackSectionEngagement_def)

lemma trackCTAClick_frame [simp]:
  "jar (trackCTAClick a b w) = jar w"
  "local_store (trackCTAClick a b w) = local_store w"
  "now (trackCTAClick a b w) = now w"
  "trackedSections (trackCTAClick a b w) = trackedSections w"
  "sectionTimers (trackCTAClick a b w) = sectionTimers w"
  "eventAnalytics (trackCTAClick a b w) = eventAnalytics w"
  "banner_timer (trackCTAClick a b w) = banner_timer w"
  "banners (trackCTAClick a b w) = banners w"
  "banner_removals (trackCTAClick a b w) = banner_removals w"
  by (simp_all add: trackCTAClick_def)

lemma trackFormSubmit_frame [simp]:
  "jar (trackFormSubmit a w) = jar w"
  "local_store (trackFormSubmit a w) = local_store w"
  "now (trackFormSubmit a w) = now w"
  "trackedSections (trackFormSubmit a w) = trackedSections w"
  "sectionTimers (trackFormSubmit a w) = sectionTimers w"
  "eventAnalytics (trackFormSubmit a w) = eventAnalytics w"
  "banner_timer (trackFormSubmit a w) = banner_timer w"
  "banners (trackFormSubmit a w) = banners w"
  "banner_removals (trackFormSubmit a w) = banner_removals w"
  by (simp_all add: trackFormSubmit_def)

lemma funpow_frame: "(\<And>w. f (g w) = f w) \<Longrightarrow> f ((g ^^ n) w) = f w"
  by (induction n) simp_all

lemma handle_entry_frame [simp]:
  "jar (handle_entry e w) = jar w"
  "local_store (handle_entry e w) = local_store w"
  "now (handle_entry e w) = now w"
  "va (handle_entry e w) = va w"
  "hsq (handle_entry e w) = hsq w"
  "trackedSections (handle_entry e w) = trackedSections w"
  "eventAnalytics (handle_entry e w) = eventAnalytics w"
  "banner_timer (handle_entry e w) = banner_timer w"
  "banners (handle_entry e w) = banners w"
  "banner_removals (handle_entry e w) = banner_removals w"
  by (simp_all add: handle_entry_def Let_def)

lemma observer_callback_frame [simp]:
  "jar (observer_callback es w) = jar w"
  "local_store (observer_callback es w) = local_store w"
  "now (observer_callback es w) = now w"
  "va (observer_callback es w) = va w"
  "hsq (observer_callback es w) = hsq w"
  "trackedSections (observer_callback es w) = trackedSections w"
  "eventAnalytics (observer_callback es w) = eventAnalytics w"
  "banner_timer (observer_callback es w) = banner_timer w"
  "banners (observer_callback es w) = banners w"
  "banner_removals (observer_callback es w) = banner_removals w"
  unfolding observer_callback_def
  by (induction es arbitrary: w; simp)+

lemma section_timeout_frame [simp]:
  "jar (section_timeout sid w) = jar w"
  "local_store (section_timeout sid w) = local_store w"
  "now (section_timeout sid w) = now w"
  "eventAnalytics (section_timeout sid w) = eventAnalytics w"
  "banner_timer (section_timeout sid w) = banner_timer w"
  "banners (section_timeout sid w) = banners w"
  "banner_removals (section_timeout sid w) = banner_removals w"
  by (simp_all add: section_timeout_def Let_def split: option.splits)

lemma handleConsentChoice_frame [simp]:
  "local_store (handleConsentChoice P pg a w) =
     (local_store w)(''analytics-consent'' \<mapsto> (if truthy a then ''true'' else ''false''))"
  "now (handleConsentChoice P pg a w) = now w"
  "eventAnalytics (handleConsentChoice P pg a w) = eventAnalytics w"
  "banner_timer (handleConsentChoice P pg a w) = banner_timer w"
  "banners (handleConsentChoice P pg a w) = banners w"
  by (simp_all add: handleConsentChoice_def Let_def)

lemma decided_local [simp]:
  "ls ''analytics-consent'' = Some v \<Longrightarrow> spec_decided ck ls"
  by (simp add: spec_decided_def)

lemma existing_consent_decided: "truthy (existing_consent w) = decided w"
  by (simp add: existing_consent_def decided_def decided_iff)

lemma page_load_banner:
  "banners (page_load P pg w) = 0"
  "banner_timer (page_load P pg w) = (if decided w then None else Some (now w + 1000))"
  "jar (page_load P pg w) = jar w"
  "local_store (page_load P pg w) = local_store w"
  "now (page_load P pg w) = now w"
proof -
  have d: "decided (fresh_page pg w) = decided w"
    by (simp add: decided_def fresh_page_def)
  show "banners (page_load P pg w) = 0"
    by (simp add: page_load_def Let_def banner_init_def fresh_page_def)
  show "banner_timer (page_load P pg w) = (if decided w then None else Some (now w + 1000))"
    using d by (simp add: page_load_def Let_def banner_init_def existing_consent_decided)
       (simp add: fresh_page_def)
  show "jar (page_load P pg w) = jar w" "local_store (page_load P pg w) = local_store w"
    "now (page_load P pg w) = now w"
    by (simp_all add: page_load_def Let_def banner_init_def fresh_page_def)
qed

lemma step_quiet:
  assumes "decided w" "banners w = 0" "banner_timer w = None"
  shows "decided (snd (step P e (pg, w))) \<and> banners (snd (step P e (pg, w))) = 0
         \<and> banner_timer (snd (step P e (pg, w))) = None"
proof (cases e)
  case (PageLoad pg')
  with assms show ?thesis by (simp add: page_load_banner decided_def)
next
  case (Elapse n)
  with assms show ?thesis by (simp add: decided_def)
next
  case BannerTimeout
  with assms show ?thesis by simp
next
  case BannerRemoval
  with assms show ?thesis by (simp add: decided_def split: list.splits)
next
  case (ConsentChoice a)
  with assms show ?thesis by (simp add: decided_def)
next
  case (AnalyticsSetConsent v)
  with assms show ?thesis by (simp add: decided_def)
next
  case (Observe es)
  with assms show ?thesis by (simp add: decided_def)
next
  case (SectionTimeout sid)
  with assms show ?thesis by (simp add: decided_def)
next
  case (CtaClick a b)
  with assms show ?thesis by (simp add: decided_def funpow_frame)
next
  case (FormSubmitted a)
  with assms show ?thesis by (simp add: decided_def funpow_frame)
qed

lemma run_quiet:
  "decided w \<Longrightarrow> banners w = 0 \<Longrightarrow> banner_timer w = None \<Longrightarrow>
   decided (snd (run P evs (pg, w))) \<and> banners (snd (run P evs (pg, w))) = 0
   \<and> banner_timer (snd (run P evs (pg, w))) = None"
proof (induction evs arbitrary: pg w)
  case Nil
  then show ?case by (simp add: run_def)
next
  case (Cons e evs)
  obtain pg' w' where s: "step P e (pg, w) = (pg', w')"
    by (cases "step P e (pg, w)")
  from step_quiet [OF Cons.prems, of P e pg] s
  have "decided w'" "banners w' = 0" "banner_timer w' = None" by simp_all
  from Cons.IH [OF this, of pg'] s show ?case by (simp add: run_def)
qed

text \<open>
  C4. A page load arms the banner's one-second timeout exactly when neither storage
  location holds a value for the consent key, and the banner is in the document once
  that second has passed and the timeout has run, not before. From a state in which
  either location holds a value, a page load followed by any sequence of events (further
  page loads, timeouts, consent choices, calls of the analytics setter, observer
  callbacks, clicks, submissions) never arms the timeout and never shows the banner.
\<close>

theorem banner_shown_iff_undecided:
  "(decided w \<longrightarrow>
      (\<forall>evs. banners (snd (run P (PageLoad pg # evs) (pg0, w))) = 0 \<and>
             banner_timer (snd (run P (PageLoad pg # evs) (pg0, w))) = None)) \<and>
   (\<not> decided w \<longrightarrow>
      banner_timer (page_load P pg w) = Some (now w + 1000) \<and>
      (\<forall>n. banners (snd (run P [PageLoad pg, Elapse n, BannerTimeout] (pg0, w)))
            = (if 1000 \<le> n then 1 else 0)))"
proof (intro conjI impI allI)
  fix evs
  assume d: "decided w"
  have "decided (page_load P pg w)"
    using d by (simp add: decided_def page_load_banner)
  moreover have "banners (page_load P pg w) = 0" "banner_timer (page_load P pg w) = None"
    using d by (simp_all add: page_load_banner)
  ultimately have q: "banners (snd (run P evs (pg, page_load P pg w))) = 0 \<and>
     banner_timer (snd (run P evs (pg, page_load P pg w))) = None"
    using run_quiet by blast
  have r: "run P (PageLoad pg # evs) (pg0, w) = run P evs (pg, page_load P pg w)"
    by (simp add: run_def)
  from q r show "banners (snd (run P (PageLoad pg # evs) (pg0, w))) = 0" by simp
  from q r show "banner_timer (snd (run P (PageLoad pg # evs) (pg0, w))) = None" by simp
next
  assume "\<not> decided w"
  then show "banner_timer (page_load P pg w) = Some (now w + 1000)"
    by (simp add: page_load_banner)
next
  fix n
  assume "\<not> decided w"
  then show "banners (snd (run P [PageLoad pg, Elapse n, BannerTimeout] (pg0, w)))
            = (if 1000 \<le> n then 1 else 0)"
    by (simp add: run_def page_load_banner showConsentBanner_def)
qed

theorem banner_shown_iff_undecided_witness:
  "decided ex_granted \<and>
   banners (snd (run ex_pathname_of (PageLoad ex_page # [Elapse 1000, BannerTimeout])
                   (ex_page, ex_granted))) = 0 \<and>
   \<not> decided ex_world \<and>
   banners (snd (run ex_pathname_of [PageLoad ex_page, Elapse 1000, BannerTimeout]
                   (ex_page, ex_world))) = 1"
proof -
  have a: "decided ex_granted"
    by (simp add: decided_def ex_granted_def)
  have b: "\<not> decided ex_world"
    by (simp add: decided_def spec_decided_def ex_world_def cookie_eval spec_cookie_pair_def)
  from a b banner_shown_iff_undecided [of ex_granted ex_pathname_of ex_page ex_page]
    banner_shown_iff_undecided [of ex_world ex_pathname_of ex_page ex_page]
  show ?thesis by simp
qed


section \<open>What \<open>init\<close> sends\<close>

lemma trackPageView_va:
  "va (trackPageView P pg w) =
     (case va w of None \<Rightarrow> None
      | Some calls \<Rightarrow> Some (calls @
          [(''page_view'',
            spread (spread [(''page'', JStr (sanitizeURL P (location_href pg))),
                            (''title'', JStr (title pg))]
                      [(''analytics_id'', analyticsId w), (''is_qr'', JBool (isQR w))])
                   (utmParams w))]))"
  by (simp add: trackPageView_def Let_def sendVercelEvent_def split: option.splits)

lemma trackPageView_hsq:
  "hsq (trackPageView P pg w) =
     (if \<not> user_consent w then hsq w
      else (case hsq w of None \<Rightarrow> None
      | Some q \<Rightarrow> Some (q @
          [(''Landing Page View'',
            spread [(''event_type'', JStr ''page_view''),
                    (''page_url'', JStr (sanitizeURL P (location_href pg))),
                    (''page_title'', JStr (title pg)),
                    (''referrer'', JStr (if referrer pg \<noteq> [] then sanitizeURL P (referrer pg)
                                         else ''direct''))]
                   [(''analytics_id'', analyticsId w),
                    (''is_qr'', JBool (isQR w)),
                    (''campaign'', obj_get (utmParams w) ''campaign''),
                    (''source'', obj_get (utmParams w) ''source''),
                    (''medium'', obj_get (utmParams w) ''medium'')])])))"
  by (simp add: trackPageView_def Let_def sendHubSpotEvent_def split: option.splits)

lemma sendVercelEvent_va:
  "va (sendVercelEvent n p w) =
     map_option (\<lambda>calls. calls @
        [(n, spread (spread p [(''analytics_id'', analyticsId w), (''is_qr'', JBool (isQR w))])
                    (utmParams w))]) (va w)"
  by (simp add: sendVercelEvent_def split: option.splits)

lemma sendHubSpotEvent_hsq:
  "hsq (sendHubSpotEvent n p w) =
     (if user_consent w
      then map_option (\<lambda>q. q @
        [(n, spread p [(''analytics_id'', analyticsId w),
                       (''is_qr'', JBool (isQR w)),
                       (''campaign'', obj_get (utmParams w) ''campaign''),
                       (''source'', obj_get (utmParams w) ''source''),
                       (''medium'', obj_get (utmParams w) ''medium'')])]) (hsq w)
      else hsq w)"
  by (simp add: sendHubSpotEvent_def split: option.splits)

lemma init_names:
  "map_option (map fst) (va (init P pg w)) =
     map_option (\<lambda>calls. map fst calls @
        (if truthy (opt_str (campaign_attr pg))
         then ''page_view'' # (if detectQRScan pg then [''qr_scan_landing''] else [])
         else [])) (va w)"
  "map_option (map fst) (hsq (init P pg w)) =
     map_option (\<lambda>q. map fst q @
        (if truthy (opt_str (campaign_attr pg)) \<and> user_consent w
         then ''Landing Page View'' # (if detectQRScan pg then [''QR Code Scan''] else [])
         else [])) (hsq w)"
proof -
  have uc: "user_consent (w\<lparr>analyticsId := a, utmParams := u, isQR := q, pageLoadTime := t\<rparr>)
            = user_consent w" for a u q t
    by (simp add: user_consent_def)
  show "map_option (map fst) (va (init P pg w)) =
     map_option (\<lambda>calls. map fst calls @
        (if truthy (opt_str (campaign_attr pg))
         then ''page_view'' # (if detectQRScan pg then [''qr_scan_landing''] else [])
         else [])) (va w)"
    by (cases "va w")
       (simp_all add: init_def Let_def trackQRLanding_def trackPageView_def
          sendVercelEvent_va sendHubSpotEvent_hsq)
  show "map_option (map fst) (hsq (init P pg w)) =
     map_option (\<lambda>q. map fst q @
        (if truthy (opt_str (campaign_attr pg)) \<and> user_consent w
         then ''Landing Page View'' # (if detectQRScan pg then [''QR Code Scan''] else [])
         else [])) (hsq w)"
    by (cases "hsq w")
       (simp_all add: init_def Let_def trackQRLanding_def trackPageView_def
          sendVercelEvent_va sendHubSpotEvent_hsq uc)
qed


section \<open>Parsing a query written out from its parameters\<close>

lemma split_on_no_sep: "c \<notin> set a \<Longrightarrow> split_on c a = [a]"
  by (induction a) auto

lemma split_on_append: "c \<notin> set a \<Longrightarrow> split_on c (a @ c # r) = a # split_on c r"
  by (induction a) auto

lemma split_on_join:
  "ps \<noteq> [] \<Longrightarrow> \<forall>p \<in> set ps. c \<notin> set p \<Longrightarrow> split_on c (join_with [c] ps) = ps"
proof (induction "[c]" ps rule: join_with.induct)
  case 1
  then show ?case by simp
next
  case (2 x)
  then show ?case by (simp add: split_on_no_sep)
next
  case (3 x y ys)
  then show ?case by (simp add: split_on_append)
qed
lemma percent_decode_plain: "CHR ''%'' \<notin> set s \<Longrightarrow> percent_decode s = s"
  by (induction s rule: percent_decode.induct) auto
lemma form_decode_plain: "plain s \<Longrightarrow> form_decode s = s"
proof -
  assume p: "plain s"
  then have "map (\<lambda>c. if c = CHR ''+'' then CHR '' '' else c) s = s"
    by (induction s) (auto simp: plain_def)
  moreover from p have "CHR ''%'' \<notin> set s"
    by (auto simp: plain_def list_all_iff)
  ultimately show ?thesis
    by (simp add: form_decode_def percent_decode_plain)
qed
lemma parse_pair_plain:
  assumes "plain k" "plain v"
  shows "parse_pair (k @ ''='' @ v) = (k, v)"
proof -
  from assms(1) have nk: "\<And>x. x \<in> set k \<Longrightarrow> x \<noteq> CHR ''=''"
    by (auto simp: plain_def list_all_iff)
  have t: "takeWhile (\<lambda>c. c \<noteq> CHR ''='') (k @ CHR ''='' # v) = k"
    using nk by (simp add: takeWhile_append2) 
  have d: "dropWhile (\<lambda>c. c \<noteq> CHR ''='') (k @ CHR ''='' # v) = CHR ''='' # v"
    using nk by (simp add: dropWhile_append2)
  show ?thesis
    using t d assms by (simp add: parse_pair_def form_decode_plain)
qed
lemma plain_no_amp: "plain s \<Longrightarrow> CHR ''&'' \<notin> set s"
  by (simp add: plain_def list_all_iff) blast

lemma piece_no_amp: "plain k \<Longrightarrow> plain v \<Longrightarrow> CHR ''&'' \<notin> set (k @ CHR ''='' # v)"
  using plain_no_amp by simp

lemma parse_pair_plain': "plain k \<Longrightarrow> plain v \<Longrightarrow> parse_pair (k @ CHR ''='' # v) = (k, v)"
  using parse_pair_plain [of k v] by simp

lemma pieces_facts:
  "list_all (\<lambda>(k, v). plain k \<and> plain v) ps \<Longrightarrow>
   (\<forall>p \<in> set (map (\<lambda>(k, v). k @ CHR ''='' # v) ps). CHR ''&'' \<notin> set p) \<and>
   filter (\<lambda>piece. piece \<noteq> []) (map (\<lambda>(k, v). k @ CHR ''='' # v) ps)
     = map (\<lambda>(k, v). k @ CHR ''='' # v) ps \<and>
   map parse_pair (map (\<lambda>(k, v). k @ CHR ''='' # v) ps) = ps"
proof (induction ps)
  case Nil
  then show ?case by simp
next
  case (Cons a ps)
  obtain k v where a: "a = (k, v)" by (cases a)
  from Cons.prems a have pk: "plain k" and pv: "plain v"
    and rest: "list_all (\<lambda>(k, v). plain k \<and> plain v) ps" by simp_all
  from Cons.IH [OF rest] piece_no_amp [OF pk pv] parse_pair_plain' [OF pk pv] a
  show ?case by simp
qed


lemma URLSearchParams_query_string:
  assumes "list_all (\<lambda>(k, v). plain k \<and> plain v) ps"
  shows "URLSearchParams (query_string ps) = ps"
proof (cases "ps = []")
  case True
  then show ?thesis by (simp add: URLSearchParams_def query_string_def)
next
  case False
  let ?pieces = "map (\<lambda>(k, v). k @ CHR ''='' # v) ps"
  have q: "query_string ps = CHR ''?'' # join_with [CHR ''&''] ?pieces"
    by (simp add: query_string_def)
  have ne: "?pieces \<noteq> []" using False by simp
  from pieces_facts [OF assms]
  have noamp: "\<forall>p \<in> set ?pieces. CHR ''&'' \<notin> set p"
    and flt: "filter (\<lambda>piece. piece \<noteq> []) ?pieces = ?pieces"
    and mp: "map parse_pair ?pieces = ps" by blast+
  have sp: "split_on CHR ''&'' (join_with [CHR ''&''] ?pieces) = ?pieces"
    using split_on_join [OF ne noamp] .
  have "URLSearchParams (query_string ps)
        = map parse_pair (filter (\<lambda>piece. piece \<noteq> [])
            (split_on CHR ''&'' (join_with [CHR ''&''] ?pieces)))"
    unfolding q URLSearchParams_def by simp
  also have "\<dots> = ps"
    unfolding sp flt mp ..
  finally show ?thesis .
qed

lemma detectQRScan_query_string:
  "list_all (\<lambda>(k, v). plain k \<and> plain v) ps \<Longrightarrow> location_search pg = query_string ps \<Longrightarrow>
   detectQRScan pg = (map_of ps ''utm_medium'' = Some ''qr'')"
  by (simp add: detectQRScan_def URLSearchParams_query_string params_get_def)


section \<open>QR landings\<close>

lemmas query_eval = URLSearchParams_def parse_pair_def form_decode_def hexval_def
  byte_of_nibbles_def params_get_def detectQRScan_def

text \<open>
  C7, as amended. \<open>detectQRScan()\<close> is true exactly when the first \<open>utm_medium\<close>
  parameter of the parsed query is \<open>qr\<close>; for a query written out from plain
  parameters, that is the first \<open>utm_medium\<close> among them. When the page has a
  non-empty campaign attribute, \<open>init\<close> sends to the generic sink (if it is there) one
  page view, followed by one QR landing exactly when \<open>detectQRScan()\<close> is true, and the
  same to the CRM queue (if it is there) when the visitor has consented; without the
  campaign attribute, or to the CRM queue without consent, it sends nothing.
\<close>

theorem detectQRScan_and_landing:
  "detectQRScan pg
     = (params_get (URLSearchParams (location_search pg)) ''utm_medium'' = Some ''qr'') \<and>
   (list_all (\<lambda>(k, v). plain k \<and> plain v) ps \<and> location_search pg = query_string ps \<longrightarrow>
      detectQRScan pg = (map_of ps ''utm_medium'' = Some ''qr'')) \<and>
   map_option (map fst) (va (init P pg w)) =
     map_option (\<lambda>calls. map fst calls @
        (if truthy (opt_str (campaign_attr pg))
         then ''page_view'' # (if detectQRScan pg then [''qr_scan_landing''] else [])
         else [])) (va w) \<and>
   map_option (map fst) (hsq (init P pg w)) =
     map_option (\<lambda>q. map fst q @
        (if truthy (opt_str (campaign_attr pg)) \<and> user_consent w
         then ''Landing Page View'' # (if detectQRScan pg then [''QR Code Scan''] else [])
         else [])) (hsq w)"
  using detectQRScan_query_string [of ps pg] init_names [of P pg w]
  by (simp add: detectQRScan_def)

theorem detectQRScan_and_landing_witness:
  "detectQRScan ex_page \<and>
   map_option (map fst) (va (init ex_pathname_of ex_page ex_world))
     = Some [''page_view'', ''qr_scan_landing''] \<and>
   map_option (map fst) (hsq (init ex_pathname_of ex_page ex_world)) = Some []"
proof -
  have a: "list_all (\<lambda>(k, v). plain k \<and> plain v)
             [(''utm_medium'', ''qr''), (''utm_source'', ''flyer'')]"
    by (simp add: plain_def)
  have b: "location_search ex_page
           = query_string [(''utm_medium'', ''qr''), (''utm_source'', ''flyer'')]"
    by (simp add: ex_page_def query_string_def)
  have c: "\<not> user_consent ex_world"
    by (simp add: ex_world_def consent_eval)
  have d: "truthy (opt_str (campaign_attr ex_page))"
    by (simp add: ex_page_def opt_str_def)
  have e: "va ex_world = Some []" "hsq ex_world = Some []"
    by (simp_all add: ex_world_def)
  from a b c d e
    detectQRScan_and_landing [where ps = "[(''utm_medium'', ''qr''), (''utm_source'', ''flyer'')]"
                                and pg = ex_page and P = ex_pathname_of and w = ex_world]
  show ?thesis by auto
qed

text \<open>
  C7 as stated fails on a page without the campaign attribute: the query has
  \<open>utm_medium=qr\<close>, \<open>detectQRScan()\<close> is true, and \<open>init\<close> sends nothing to either sink,
  with or without consent. It also fails for a query that has \<open>utm_medium=qr\<close> after
  another \<open>utm_medium\<close>: \<open>detectQRScan()\<close> is false.
\<close>

theorem qr_landing_counterexample:
  "detectQRScan ex_page_no_campaign \<and>
   va (init ex_pathname_of ex_page_no_campaign ex_world) = Some [] \<and>
   hsq (init ex_pathname_of ex_page_no_campaign ex_granted) = Some [] \<and>
   location_search ex_page_two_media = ''?utm_medium=email&utm_medium=qr'' \<and>
   \<not> detectQRScan ex_page_two_media"
  by (simp add: ex_page_no_campaign_def ex_page_two_media_def ex_page_def query_eval
        init_def Let_def opt_str_def ex_world_def ex_granted_def)


section \<open>Sanitized addresses in the page view\<close>

lemma vercel_props:
  "spread (spread [(''page'', a), (''title'', b)] [(''analytics_id'', c), (''is_qr'', d)])
          (getUTMParams pg)
   = [(''page'', a), (''title'', b), (''analytics_id'', c), (''is_qr'', d)] @ getUTMParams pg"
  by (simp add: spread_def getUTMParams_def Let_def)

lemma hubspot_props:
  "spread [(''event_type'', a), (''page_url'', b), (''page_title'', c), (''referrer'', d)]
          [(''analytics_id'', e), (''is_qr'', f), (''campaign'', g), (''source'', h), (''medium'', i)]
   = [(''event_type'', a), (''page_url'', b), (''page_title'', c), (''referrer'', d),
      (''analytics_id'', e), (''is_qr'', f), (''campaign'', g), (''source'', h), (''medium'', i)]"
  by (simp add: spread_def)

lemma init_page_view_va:
  assumes "truthy (opt_str (campaign_attr pg))" "va w = Some calls"
  shows "\<exists>rest. va (init P pg w) =
     Some (calls @
       (''page_view'',
        [(''page'', JStr (sanitizeURL P (location_href pg))),
         (''title'', JStr (title pg)),
         (''analytics_id'', opt_str (campaign_attr pg)),
         (''is_qr'', JBool (detectQRScan pg))] @ getUTMParams pg) # rest)"
  using assms
  by (simp add: init_def Let_def trackQRLanding_def trackPageView_def
        sendVercelEvent_va sendHubSpotEvent_hsq vercel_props)

lemma init_page_view_hsq:
  assumes "truthy (opt_str (campaign_attr pg))" "hsq w = Some q" "user_consent w"
  shows "\<exists>rest. hsq (init P pg w) =
     Some (q @
       (''Landing Page View'',
        [(''event_type'', JStr ''page_view''),
         (''page_url'', JStr (sanitizeURL P (location_href pg))),
         (''page_title'', JStr (title pg)),
         (''referrer'', JStr (if referrer pg \<noteq> [] then sanitizeURL P (referrer pg) else ''direct'')),
         (''analytics_id'', opt_str (campaign_attr pg)),
         (''is_qr'', JBool (detectQRScan pg)),
         (''campaign'', obj_get (getUTMParams pg) ''campaign''),
         (''source'', obj_get (getUTMParams pg) ''source''),
         (''medium'', obj_get (getUTMParams pg) ''medium'')]) # rest)"
proof -
  have uc: "user_consent (w\<lparr>analyticsId := a, utmParams := u, isQR := q, pageLoadTime := t\<rparr>)
            = user_consent w" for a u q t
    by (simp add: user_consent_def)
  show ?thesis
    using assms
    by (simp add: init_def Let_def trackQRLanding_def trackPageView_def
        sendVercelEvent_va sendHubSpotEvent_hsq hubspot_props uc)
qed

lemma ex_granted_facts:
  "truthy (opt_str (campaign_attr ex_page))" "hsq ex_granted = Some []"
  "va ex_granted = Some []" "user_consent ex_granted"
  by (simp_all add: ex_page_def opt_str_def ex_granted_def ex_world_def consent_eval)

text \<open>
  C9, as amended. \<open>sanitizeURL\<close> returns a value for every input: the \<open>pathname\<close> of
  the parsed address, and \<open>/\<close> when the address does not parse. The page view that
  \<open>init\<close> sends carries, for the page, the sanitized path of \<open>location.href\<close>, and for the
  referrer (CRM sink only) the sanitized path of \<open>document.referrer\<close>, or the word
  \<open>direct\<close> when the referrer is empty. The events are given in full: the other
  properties are the title, the campaign identifier, the QR flag and the UTM parameters.
\<close>

theorem page_view_sanitized:
  "(P u = None \<longrightarrow> sanitizeURL P u = ''/'') \<and>
   (\<forall>p. P u = Some p \<longrightarrow> sanitizeURL P u = p) \<and>
   (truthy (opt_str (campaign_attr pg)) \<and> va w = Some calls \<longrightarrow>
      (\<exists>rest. va (init P pg w) =
         Some (calls @
           (''page_view'',
            [(''page'', JStr (sanitizeURL P (location_href pg))),
             (''title'', JStr (title pg)),
             (''analytics_id'', opt_str (campaign_attr pg)),
             (''is_qr'', JBool (detectQRScan pg))] @ getUTMParams pg) # rest))) \<and>
   (truthy (opt_str (campaign_attr pg)) \<and> hsq w = Some q \<and> user_consent w \<longrightarrow>
      (\<exists>rest. hsq (init P pg w) =
         Some (q @
           (''Landing Page View'',
            [(''event_type'', JStr ''page_view''),
             (''page_url'', JStr (sanitizeURL P (location_href pg))),
             (''page_title'', JStr (title pg)),
             (''referrer'', JStr (if referrer pg \<noteq> [] then sanitizeURL P (referrer pg)
                                  else ''direct'')),
             (''analytics_id'', opt_str (campaign_attr pg)),
             (''is_qr'', JBool (detectQRScan pg)),
             (''campaign'', obj_get (getUTMParams pg) ''campaign''),
             (''source'', obj_get (getUTMParams pg) ''source''),
             (''medium'', obj_get (getUTMParams pg) ''medium'')]) # rest)))"
proof (intro conjI impI allI)
  show "sanitizeURL P u = ''/''" if "P u = None"
    using that by (simp add: sanitizeURL_def)
  show "sanitizeURL P u = p" if "P u = Some p" for p
    using that by (simp add: sanitizeURL_def)
next
  assume "truthy (opt_str (campaign_attr pg)) \<and> va w = Some calls"
  then show "\<exists>rest. va (init P pg w) =
         Some (calls @
           (''page_view'',
            [(''page'', JStr (sanitizeURL P (location_href pg))),
             (''title'', JStr (title pg)),
             (''analytics_id'', opt_str (campaign_attr pg)),
             (''is_qr'', JBool (detectQRScan pg))] @ getUTMParams pg) # rest)"
    using init_page_view_va [of pg w calls P] by blast
next
  assume "truthy (opt_str (campaign_attr pg)) \<and> hsq w = Some q \<and> user_consent w"
  then show "\<exists>rest. hsq (init P pg w) =
         Some (q @
           (''Landing Page View'',
            [(''event_type'', JStr ''page_view''),
             (''page_url'', JStr (sanitizeURL P (location_href pg))),
             (''page_title'', JStr (title pg)),
             (''referrer'', JStr (if referrer pg \<noteq> [] then sanitizeURL P (referrer pg)
                                  else ''direct'')),
             (''analytics_id'', opt_str (campaign_attr pg)),
             (''is_qr'', JBool (detectQRScan pg)),
             (''campaign'', obj_get (getUTMParams pg) ''campaign''),
             (''source'', obj_get (getUTMParams pg) ''source''),
             (''medium'', obj_get (getUTMParams pg) ''medium'')]) # rest)"
    using init_page_view_hsq [of pg w q P] by blast
qed

theorem page_view_sanitized_witness:
  "ex_pathname_of (location_href ex_page) = Some ''/event'' \<and>
   sanitizeURL ex_pathname_of (location_href ex_page) = ''/event'' \<and>
   ex_pathname_of ''not a url'' = None \<and>
   sanitizeURL ex_pathname_of ''not a url'' = ''/'' \<and>
   obj_get (snd (hd (the (va (init ex_pathname_of ex_page ex_granted))))) ''page'' = JStr ''/event'' \<and>
   obj_get (snd (hd (the (hsq (init ex_pathname_of ex_page ex_granted))))) ''page_url''
     = JStr ''/event''"
proof -
  have a: "ex_pathname_of (location_href ex_page) = Some ''/event''"
    by (simp add: ex_pathname_of_def ex_page_def)
  have b: "ex_pathname_of ''not a url'' = None"
    by (simp add: ex_pathname_of_def)
  from page_view_sanitized [of ex_pathname_of "location_href ex_page" ex_page ex_granted "[]" "[]"]
    a ex_granted_facts
  have c: "sanitizeURL ex_pathname_of (location_href ex_page) = ''/event''"
    and d: "\<exists>rest. va (init ex_pathname_of ex_page ex_granted) =
         Some ([] @
           (''page_view'',
            [(''page'', JStr (sanitizeURL ex_pathname_of (location_href ex_page))),
             (''title'', JStr (title ex_page)),
             (''analytics_id'', opt_str (campaign_attr ex_page)),
             (''is_qr'', JBool (detectQRScan ex_page))] @ getUTMParams ex_page) # rest)"
    and e: "\<exists>rest. hsq (init ex_pathname_of ex_page ex_granted) =
         Some ([] @
           (''Landing Page View'',
            [(''event_type'', JStr ''page_view''),
             (''page_url'', JStr (sanitizeURL ex_pathname_of (location_href ex_page))),
             (''page_title'', JStr (title ex_page)),
             (''referrer'', JStr (if referrer ex_page \<noteq> []
                                  then sanitizeURL ex_pathname_of (referrer ex_page)
                                  else ''direct'')),
             (''analytics_id'', opt_str (campaign_attr ex_page)),
             (''is_qr'', JBool (detectQRScan ex_page)),
             (''campaign'', obj_get (getUTMParams ex_page) ''campaign''),
             (''source'', obj_get (getUTMParams ex_page) ''source''),
             (''medium'', obj_get (getUTMParams ex_page) ''medium'')]) # rest)"
    by blast+
  from page_view_sanitized [of ex_pathname_of "''not a url''"] b
  have f: "sanitizeURL ex_pathname_of ''not a url'' = ''/''" by blast
  from d c have g: "obj_get (snd (hd (the (va (init ex_pathname_of ex_page ex_granted))))) ''page''
                    = JStr ''/event''"
    by (auto simp: obj_get_def)
  from e c have h: "obj_get (snd (hd (the (hsq (init ex_pathname_of ex_page ex_granted))))) ''page_url''
                    = JStr ''/event''"
    by (auto simp: obj_get_def)
  from a b c f g h show ?thesis by blast
qed

text \<open>
  C9 as stated fails for a visit without a referrer: the page view carries \<open>direct\<close>,
  which is not the sanitized path of the (empty) referrer.
\<close>

theorem page_view_referrer_counterexample:
  "referrer ex_page = [] \<and>
   sanitizeURL ex_pathname_of (referrer ex_page) = ''/'' \<and>
   obj_get (snd (hd (the (hsq (init ex_pathname_of ex_page ex_granted))))) ''referrer''
     = JStr ''direct''"
proof -
  have a: "referrer ex_page = []" by (simp add: ex_page_def)
  have b: "sanitizeURL ex_pathname_of (referrer ex_page) = ''/''"
    by (simp add: a sanitizeURL_def ex_pathname_of_def)
  from init_page_view_hsq [of ex_page ex_granted "[]" ex_pathname_of] ex_granted_facts a
  have "obj_get (snd (hd (the (hsq (init ex_pathname_of ex_page ex_granted))))) ''referrer''
     = JStr ''direct''"
    by (auto simp: obj_get_def)
  with a b show ?thesis by blast
qed


section \<open>The validator\<close>

lemma fold_field_errors:
  "fold (\<lambda>key errs. if key \<notin> A then errs @ [f key] else errs) ks acc
   = acc @ map f (filter (\<lambda>k. k \<notin> A) ks)"
  by (induction ks arbitrary: acc) auto

lemma form_email_cases:
  "truthy (form_email fd) = (\<exists>e. map_of fd ''email'' = Some e \<and> e \<noteq> [])"
  "(truthy (form_email fd) \<and> \<not> email_is_valid (form_email fd))
     = (\<exists>e. map_of fd ''email'' = Some e \<and> e \<noteq> [] \<and> \<not> isValidEmail e)"
  by (auto simp: form_email_def email_is_valid_def split: option.splits)

lemma validate_errors:
  "errors (validate fd cg) =
     (if \<not> cg then [err_consent] else []) @
     (if \<not> truthy (form_email fd) then [err_email_required] else []) @
     (if truthy (form_email fd) \<and> \<not> email_is_valid (form_email fd) then [err_email_invalid] else []) @
     map err_field (filter (\<lambda>k. k \<notin> set allowedFields) (map fst fd))"
  "isValid (validate fd cg) = (errors (validate fd cg) = [])"
  by (simp_all add: validate_def Let_def fold_field_errors)

lemma isValidEmail_example: "isValidEmail ''user@example.com''"
  by (simp add: isValidEmail_def rx_test_def emailRegex_def RPlus_def RChr_def not_ws_at_def is_ws_def)

lemma ssn_not_allowed: "''ssn'' \<notin> set allowedFields"
  by (simp add: allowedFields_def)

text \<open>
  C2, as amended. For every form data and consent flag, \<open>validate\<close> returns the list of
  all violations, in this order and with nothing else: the consent error when consent
  is not given; the email-required error when the email field is absent or empty; the
  email-invalid error when the email is not empty and does not match the pattern; one
  field-not-allowed error for each field name outside the allowlist; and the result is
  valid exactly when the list is empty. So without consent the consent error is always
  there, a field named \<open>ssn\<close> gives its field-not-allowed error, and
  \<open>user@example.com\<close> with consent and no other field gives no error.
\<close>

theorem validate_all_violations:
  "errors (validate fd cg) =
     (if \<not> cg then [err_consent] else []) @
     (if map_of fd ''email'' = None \<or> map_of fd ''email'' = Some [] then [err_email_required] else []) @
     (if \<exists>e. map_of fd ''email'' = Some e \<and> e \<noteq> [] \<and> \<not> isValidEmail e
      then [err_email_invalid] else []) @
     map err_field (filter (\<lambda>k. k \<notin> set allowedFields) (map fst fd)) \<and>
   isValid (validate fd cg) = (errors (validate fd cg) = []) \<and>
   (\<not> cg \<longrightarrow> err_consent \<in> set (errors (validate fd cg))) \<and>
   ((''ssn'', v) \<in> set fd \<longrightarrow>
      ''Field '' @ [CHR 0x22] @ ''ssn'' @ [CHR 0x22] @ '' is not allowed''
        \<in> set (errors (validate fd cg))) \<and>
   validate [(''email'', ''user@example.com'')] True = \<lparr>isValid = True, errors = []\<rparr>"
proof (intro conjI impI)
  have abs: "(\<not> truthy (form_email fd)) = (map_of fd ''email'' = None \<or> map_of fd ''email'' = Some [])"
    by (cases "map_of fd ''email''") (auto simp: form_email_cases)
  show "errors (validate fd cg) =
     (if \<not> cg then [err_consent] else []) @
     (if map_of fd ''email'' = None \<or> map_of fd ''email'' = Some [] then [err_email_required] else []) @
     (if \<exists>e. map_of fd ''email'' = Some e \<and> e \<noteq> [] \<and> \<not> isValidEmail e
      then [err_email_invalid] else []) @
     map err_field (filter (\<lambda>k. k \<notin> set allowedFields) (map fst fd))"
    unfolding validate_errors(1) form_email_cases(2) abs ..
  show "isValid (validate fd cg) = (errors (validate fd cg) = [])"
    by (rule validate_errors(2))
  show "err_consent \<in> set (errors (validate fd cg))" if "\<not> cg"
    using that by (simp add: validate_errors(1))
  show "''Field '' @ [CHR 0x22] @ ''ssn'' @ [CHR 0x22] @ '' is not allowed''
        \<in> set (errors (validate fd cg))" if "(''ssn'', v) \<in> set fd"
  proof -
    from that have "''ssn'' \<in> set (filter (\<lambda>k. k \<notin> set allowedFields) (map fst fd))"
      using ssn_not_allowed by force
    then have "err_field ''ssn'' \<in> set (errors (validate fd cg))"
      unfolding validate_errors(1) by simp
    then show ?thesis by (simp add: err_field_def)
  qed
  show "validate [(''email'', ''user@example.com'')] True = \<lparr>isValid = True, errors = []\<rparr>"
    using isValidEmail_example
    by (simp add: validate_def Let_def form_email_def email_is_valid_def allowedFields_def)
qed

theorem validate_all_violations_witness:
  "errors (validate [(''email'', ''user@example''), (''ssn'', ''123'')] False) =
     [err_consent, err_email_invalid, ''Field '' @ [CHR 0x22] @ ''ssn'' @ [CHR 0x22] @ '' is not allowed'']
   \<and> \<not> isValid (validate [(''email'', ''user@example''), (''ssn'', ''123'')] False)"
proof -
  have a: "\<not> isValidEmail ''user@example''"
    by (simp add: isValidEmail_def rx_test_def emailRegex_def RPlus_def RChr_def not_ws_at_def is_ws_def)
  from a validate_all_violations [of "[(''email'', ''user@example''), (''ssn'', ''123'')]" False "''123''"]
  show ?thesis
    by (simp add: allowedFields_def err_field_def)
qed

text \<open>
  C2 as stated fails for an email field that is present and empty: it does not match
  the pattern, and the list holds the email-required error, not the email-invalid one.
\<close>

theorem validate_empty_email_counterexample:
  "map_of [(''email'', [])] ''email'' = Some [] \<and>
   \<not> isValidEmail [] \<and>
   errors (validate [(''email'', [])] True) = [err_email_required] \<and>
   err_email_invalid \<notin> set (errors (validate [(''email'', [])] True))"
  by (simp add: validate_def Let_def form_email_def email_is_valid_def allowedFields_def
        isValidEmail_def rx_test_def emailRegex_def RPlus_def RChr_def
        err_email_invalid_def err_email_required_def)


section \<open>A submission that does not succeed\<close>

lemma submit_non_success:
  assumes "buildPayload env data ctx lc = Some p"
      and "non_success (env_fetch env \<lparr>url = apiUrl cfg, http_method = ''POST'',
                                        contentType = ''application/json'', body = p\<rparr>)"
  shows "submit env cfg data ctx lc =
           (Failure ''Submission failed. Please try again.'',
            [\<lparr>url = apiUrl cfg, http_method = ''POST'',
              contentType = ''application/json'', body = p\<rparr>])"
  using assms
  by (simp add: submit_def Let_def non_success_def split: fetch_outcome.splits)

lemma ex_form_data:
  "form_data ex_env ex_config ex_entries
   = [(''email'', ''user@example.com''), (''cta_interaction_type'', ''in_section_cta'')]"
  by (simp add: form_data_def collect_def ex_entries_def ex_env_def Let_def)

text \<open>
  C3. For every submission that passes validation and whose request, the POST of the
  payload to the form's endpoint, does not succeed (the transport throws or the status
  is not a success), \<open>submit\<close> returns a failure result and has sent exactly that
  one request; and
  \<open>handleSubmit\<close> leaves the form as it was except that the success box is hidden, the
  error box shows the generic failure message, the submit button is enabled again with
  its label, and that one request is recorded: the success message is not shown, the
  form is not hidden, the success callback is not called, nothing is sent again.
\<close>

theorem submit_failure_handling:
  assumes "isValid (validate (form_data env cfg entries) (consentGiven st))"
      and "buildPayload env (form_data env cfg entries)
             (Some (env_href env), Some (env_title env))
             (Some ''I agree to allow Big Rock Intelligence to store and process my personal data.'',
              Some ''I agree to receive marketing communications from Big Rock Intelligence.'')
           = Some p"
      and "non_success (env_fetch env \<lparr>url = apiUrl cfg, http_method = ''POST'',
                                        contentType = ''application/json'', body = p\<rparr>)"
  shows "submit env cfg (form_data env cfg entries)
             (Some (env_href env), Some (env_title env))
             (Some ''I agree to allow Big Rock Intelligence to store and process my personal data.'',
              Some ''I agree to receive marketing communications from Big Rock Intelligence.'')
           = (Failure ''Submission failed. Please try again.'',
              [\<lparr>url = apiUrl cfg, http_method = ''POST'',
                contentType = ''application/json'', body = p\<rparr>]) \<and>
         handleSubmit env cfg entries st =
           st\<lparr>success_display := ''none'',
              error_display := ''block'',
              error_text :=
                ''Submission failed. Please try again or contact james@bigrock-intel.ai'',
              btn_disabled := False,
              btn_text := or_default (buttonText cfg) ''Submit'',
              requests := requests st @
                [\<lparr>url = apiUrl cfg, http_method = ''POST'',
                  contentType = ''application/json'', body = p\<rparr>]\<rparr>"
proof -
  note s = submit_non_success [OF assms(2,3)]
  have "handleSubmit env cfg entries st =
           st\<lparr>success_display := ''none'',
              error_display := ''block'',
              error_text :=
                ''Submission failed. Please try again or contact james@bigrock-intel.ai'',
              btn_disabled := False,
              btn_text := or_default (buttonText cfg) ''Submit'',
              requests := requests st @
                [\<lparr>url = apiUrl cfg, http_method = ''POST'',
                  contentType = ''application/json'', body = p\<rparr>]\<rparr>"
    using assms(1) s by (simp add: handleSubmit_def Let_def)
  with s show ?thesis by blast
qed

theorem submit_failure_handling_witness:
  "isValid (validate (form_data ex_env ex_config ex_entries) (consentGiven ex_form)) \<and>
   (\<exists>p. buildPayload ex_env (form_data ex_env ex_config ex_entries)
             (Some (env_href ex_env), Some (env_title ex_env))
             (Some ''I agree to allow Big Rock Intelligence to store and process my personal data.'',
              Some ''I agree to receive marketing communications from Big Rock Intelligence.'')
           = Some p \<and> hutk p = Some ''abc123'' \<and>
        non_success (env_fetch ex_env \<lparr>url = apiUrl ex_config, http_method = ''POST'',
                                        contentType = ''application/json'', body = p\<rparr>)) \<and>
   success_display (handleSubmit ex_env ex_config ex_entries ex_form) = ''none'' \<and>
   error_display (handleSubmit ex_env ex_config ex_entries ex_form) = ''block'' \<and>
   btn_disabled (handleSubmit ex_env ex_config ex_entries ex_form) = False \<and>
   btn_text (handleSubmit ex_env ex_config ex_entries ex_form) = ''Send Checklist'' \<and>
   length (requests (handleSubmit ex_env ex_config ex_entries ex_form)) = 1"
proof -
  have a: "isValid (validate (form_data ex_env ex_config ex_entries) (consentGiven ex_form))"
    using isValidEmail_example
    by (simp add: ex_form_data ex_form_def validate_def Let_def form_email_def
          email_is_valid_def allowedFields_def)
  obtain p where b: "buildPayload ex_env (form_data ex_env ex_config ex_entries)
             (Some (env_href ex_env), Some (env_title ex_env))
             (Some ''I agree to allow Big Rock Intelligence to store and process my personal data.'',
              Some ''I agree to receive marketing communications from Big Rock Intelligence.'')
           = Some p" and h: "hutk p = Some ''abc123''"
    by (simp add: buildPayload_def getHubSpotCookie_def ex_env_def trim_def is_ws_def
          startsWith_def)
  have c: "non_success (env_fetch ex_env \<lparr>url = apiUrl ex_config, http_method = ''POST'',
                                        contentType = ''application/json'', body = p\<rparr>)"
    by (simp add: ex_env_def non_success_def)
  have d: "or_default (buttonText ex_config) ''Submit'' = ''Send Checklist''"
    by (simp add: or_default_def ex_config_def)
  have e: "requests ex_form = []"
    by (simp add: ex_form_def)
  from submit_failure_handling [OF a b c]
  have "handleSubmit ex_env ex_config ex_entries ex_form =
           ex_form\<lparr>success_display := ''none'',
              error_display := ''block'',
              error_text :=
                ''Submission failed. Please try again or contact james@bigrock-intel.ai'',
              btn_disabled := False,
              btn_text := or_default (buttonText ex_config) ''Submit'',
              requests := requests ex_form @
                [\<lparr>url = apiUrl ex_config, http_method = ''POST'',
                  contentType = ''application/json'', body = p\<rparr>]\<rparr>"
    by blast
  then have f: "success_display (handleSubmit ex_env ex_config ex_entries ex_form) = ''none''"
    "error_display (handleSubmit ex_env ex_config ex_entries ex_form) = ''block''"
    "btn_disabled (handleSubmit ex_env ex_config ex_entries ex_form) = False"
    "btn_text (handleSubmit ex_env ex_config ex_entries ex_form) = ''Send Checklist''"
    "length (requests (handleSubmit ex_env ex_config ex_entries ex_form)) = 1"
    by (simp_all add: d e)
  from a b h c f show ?thesis by blast
qed


section \<open>Section engagement: once, and only after the dwell time\<close>

lemma handle_entry_observers [simp]:
  "section_observers (handle_entry e w) = section_observers w"
  by (simp add: handle_entry_def Let_def)

lemma handle_entry_timers:
  "sectionTimers (handle_entry e w) =
     (if isIntersecting e \<and> sectionVisibilityThreshold \<le> intersectionRatio e
      then (if target_section e \<notin> fst ` set (sectionTimers w)
            then sectionTimers w @
                   [(target_section e, now w + sectionEngagementTime,
                     if target_id e \<noteq> [] then target_id e else target_section e)]
            else sectionTimers w)
      else filter (\<lambda>t. fst t \<noteq> target_section e) (sectionTimers w))"
proof -
  have "filter (\<lambda>t. fst t \<noteq> s) ts = ts" if "s \<notin> fst ` set ts" for s and ts :: "(string \<times> int \<times> string) list"
    using that by (induction ts) auto
  then show ?thesis
    by (simp add: handle_entry_def Let_def)
qed

lemma handle_entry_dwell:
  assumes inv: "dwell_inv w (clk, vs)" and obs: "section_observers w > 0"
  shows "dwell_inv (handle_entry e w) (clk, seen_entry clk e vs)"
proof -
  from inv have nw: "now w = clk"
    by (simp add: dwell_inv_def)
  from inv have le: "\<And>sid t. vs sid = Some t \<Longrightarrow> t \<le> clk"
    by (simp add: dwell_inv_def)
  from inv have tm: "\<And>sid d nm. (sid, d, nm) \<in> set (sectionTimers w) \<Longrightarrow>
               \<exists>t. vs sid = Some t \<and> t + sectionEngagementTime \<le> d"
    unfolding dwell_inv_def by (simp; blast)
  let ?s = "target_section e"
  show ?thesis
  proof (cases "entry_visible e")
    case True
    then have vis: "isIntersecting e \<and> sectionVisibilityThreshold \<le> intersectionRatio e"
      by (simp add: entry_visible_def)
    obtain t0 where t0: "seen_entry clk e vs ?s = Some t0" "t0 \<le> clk"
      and other: "\<And>sid. vs sid \<noteq> None \<Longrightarrow> seen_entry clk e vs sid = vs sid"
      and le': "\<And>sid t. seen_entry clk e vs sid = Some t \<Longrightarrow> t \<le> clk"
    proof (cases "vs ?s")
      case None
      with True have eq: "seen_entry clk e vs = vs(?s \<mapsto> clk)"
        by (simp add: seen_entry_def)
      show ?thesis
      proof (rule that [of clk])
        show "seen_entry clk e vs ?s = Some clk" by (simp add: eq)
        show "clk \<le> clk" by simp
        show "seen_entry clk e vs sid = vs sid" if "vs sid \<noteq> None" for sid
          using that None by (auto simp: eq)
        show "t \<le> clk" if "seen_entry clk e vs sid = Some t" for sid t
          using that le by (auto simp: eq split: if_splits)
      qed
    next
      case (Some t)
      with True have eq: "seen_entry clk e vs = vs"
        by (simp add: seen_entry_def)
      show ?thesis
      proof (rule that [of t])
        show "seen_entry clk e vs ?s = Some t" by (simp add: eq Some)
        show "t \<le> clk" using le Some by blast
        show "seen_entry clk e vs sid = vs sid" if "vs sid \<noteq> None" for sid
          by (simp add: eq)
        show "t' \<le> clk" if "seen_entry clk e vs sid = Some t'" for sid t'
          using that le by (simp add: eq)
      qed
    qed
    have timers: "\<exists>t. seen_entry clk e vs sid = Some t \<and> t + sectionEngagementTime \<le> d"
      if "(sid, d, nm) \<in> set (sectionTimers (handle_entry e w))" for sid d nm
    proof (cases "(sid, d, nm) \<in> set (sectionTimers w)")
      case True
      from tm [OF True] obtain t where "vs sid = Some t" "t + sectionEngagementTime \<le> d" by blast
      with other [of sid] show ?thesis by simp
    next
      case False
      with that vis have "sid = ?s" "d = now w + sectionEngagementTime"
        by (auto simp: handle_entry_timers split: if_splits)
      with t0 nw show ?thesis by simp
    qed
    have "sectionTimers (handle_entry e w) \<noteq> [] \<or> section_observers w \<noteq> 0"
      using obs by simp
    with nw le' timers obs show ?thesis
      by (auto simp: dwell_inv_def)
  next
    case False
    then have hid: "\<not> (isIntersecting e \<and> sectionVisibilityThreshold \<le> intersectionRatio e)"
      by (simp add: entry_visible_def)
    from False have eq: "seen_entry clk e vs = vs(?s := None)"
      by (simp add: seen_entry_def)
    have timers: "\<exists>t. seen_entry clk e vs sid = Some t \<and> t + sectionEngagementTime \<le> d"
      if "(sid, d, nm) \<in> set (sectionTimers (handle_entry e w))" for sid d nm
    proof -
      from that hid have "(sid, d, nm) \<in> set (sectionTimers w)" "sid \<noteq> ?s"
        by (auto simp: handle_entry_timers)
      with tm [of sid d nm] show ?thesis by (simp add: eq)
    qed
    have le': "t \<le> clk" if "seen_entry clk e vs sid = Some t" for sid t
      using that le by (auto simp: eq split: if_splits)
    from nw le' timers obs show ?thesis
      by (auto simp: dwell_inv_def)
  qed
qed

lemma observer_callback_dwell:
  "dwell_inv w (clk, vs) \<Longrightarrow> section_observers w > 0 \<Longrightarrow>
   dwell_inv (observer_callback es w) (clk, fold (seen_entry clk) es vs)"
  unfolding observer_callback_def
proof (induction es arbitrary: w vs)
  case Nil
  then show ?case by simp
next
  case (Cons e es)
  from handle_entry_dwell [OF Cons.prems] have "dwell_inv (handle_entry e w) (clk, seen_entry clk e vs)" .
  moreover from Cons.prems(2) have "section_observers (handle_entry e w) > 0" by simp
  ultimately show ?case using Cons.IH by simp
qed

lemma dwell_inv_frame:
  "dwell_inv w g \<Longrightarrow> now w' = now w \<Longrightarrow> sectionTimers w' = sectionTimers w \<Longrightarrow>
   section_observers w \<le> section_observers w' \<Longrightarrow> dwell_inv w' g"
  by (auto simp: dwell_inv_def)

lemma dwell_inv_subset:
  assumes "dwell_inv w g" "now w' = now w" "set (sectionTimers w') \<subseteq> set (sectionTimers w)"
    "section_observers w' = section_observers w"
  shows "dwell_inv w' g"
proof -
  from assms(1) have tm: "\<And>sid d nm. (sid, d, nm) \<in> set (sectionTimers w) \<Longrightarrow>
               \<exists>t. snd g sid = Some t \<and> t + sectionEngagementTime \<le> d"
    unfolding dwell_inv_def by (simp; blast)
  have "\<exists>t. snd g sid = Some t \<and> t + sectionEngagementTime \<le> d"
    if "(sid, d, nm) \<in> set (sectionTimers w')" for sid d nm
    using that assms(3) tm by blast
  moreover have "sectionTimers w' = []" if "section_observers w' = 0"
    using that assms by (simp add: dwell_inv_def)
  moreover from assms have "now w' = fst g" "\<forall>sid t. snd g sid = Some t \<longrightarrow> t \<le> fst g"
    by (simp_all add: dwell_inv_def)
  ultimately show ?thesis
    unfolding dwell_inv_def by blast
qed

lemma observers_mono [simp]:
  "section_observers (sendVercelEvent n p w) = section_observers w"
  "section_observers (sendHubSpotEvent n p w) = section_observers w"
  "section_observers (trackSectionEngagement sid nm w) = section_observers w"
  "section_observers (trackCTAClick a b w) = section_observers w"
  "section_observers (trackFormSubmit a w) = section_observers w"
  "section_observers w \<le> section_observers (init P pg w)"
  "section_observers w \<le> section_observers (EventAnalytics_setConsent P pg v w)"
  "section_observers w \<le> section_observers (banner_setConsent P pg s w)"
  "section_observers w \<le> section_observers (handleConsentChoice P pg v w)"
proof -
  show a: "section_observers (sendVercelEvent n p w) = section_observers w"
    "section_observers (sendHubSpotEvent n p w) = section_observers w" for n p w
    by simp_all
  show "section_observers (trackSectionEngagement sid nm w) = section_observers w"
    by (simp add: trackSectionEngagement_def)
  show "section_observers (trackCTAClick a b w) = section_observers w"
    by (simp add: trackCTAClick_def)
  show "section_observers (trackFormSubmit a w) = section_observers w"
    by (simp add: trackFormSubmit_def)
  show i: "section_observers w \<le> section_observers (init P pg w)" for w
    by (simp add: init_def Let_def setupSectionObserver_def setupCTATracking_def
          setupFormTracking_def)
  show e: "section_observers w \<le> section_observers (EventAnalytics_setConsent P pg v w)" for v w
    using i [of "w\<lparr>local_store := (local_store w)(''analytics-consent'' \<mapsto> ''true'')\<rparr>"]
    by (simp add: EventAnalytics_setConsent_def Let_def)
  show b: "section_observers w \<le> section_observers (banner_setConsent P pg s w)" for s w
    using e [of "w\<lparr>jar := store_cookie \<lparr>c_name = ''analytics-consent'', c_value = s,
                    c_expires = ((now w + 30 * 24 * 60 * 60 * 1000) div 1000) * 1000,
                    c_path = ''/''\<rparr> (jar w),
                  local_store := (local_store w)(''analytics-consent'' \<mapsto> s)\<rparr>" "JBool True"]
    by (auto simp: banner_setConsent_def Let_def)
  show "section_observers w \<le> section_observers (handleConsentChoice P pg v w)"
    using b [of w] by (simp add: handleConsentChoice_def Let_def)
qed

lemma handleConsentChoice_timers [simp]:
  "sectionTimers (handleConsentChoice P pg v w) = sectionTimers w"
  "trackedSections (handleConsentChoice P pg v w) = trackedSections w"
  by (simp_all add: handleConsentChoice_def Let_def)

lemma seen_entries_le:
  "(\<And>sid t. vs sid = Some t \<Longrightarrow> t \<le> clk) \<Longrightarrow>
   fold (seen_entry clk) es vs sid = Some t \<Longrightarrow> t \<le> clk"
proof (induction es arbitrary: vs)
  case Nil
  then show ?case by simp
next
  case (Cons e es)
  have "\<And>sid t. seen_entry clk e vs sid = Some t \<Longrightarrow> t \<le> clk"
    using Cons.prems(1) by (auto simp: seen_entry_def split: if_splits option.splits)
  from Cons.IH [OF this] Cons.prems(2) show ?case by simp
qed

lemma section_timeout_timers:
  "set (sectionTimers (section_timeout sid w)) \<subseteq> set (sectionTimers w)"
  "section_observers (section_timeout sid w) = section_observers w"
  "trackedSections w \<subseteq> trackedSections (section_timeout sid w)"
  by (auto simp: section_timeout_def Let_def trackSectionEngagement_def split: option.splits)

lemma page_load_timers:
  "sectionTimers (page_load P pg w) = []"
  by (simp add: page_load_def Let_def banner_init_def fresh_page_def)

lemma step_dwell:
  assumes "dwell_inv w g"
  shows "dwell_inv (snd (step P e (pg, w))) (seen_event e g)"
proof -
  obtain clk vs where g: "g = (clk, vs)" by (cases g)
  show ?thesis
  proof (cases e)
    case (PageLoad pg')
    with assms g show ?thesis
      by (simp add: dwell_inv_def page_load_timers page_load_banner)
  next
    case (Elapse n)
    with assms g show ?thesis
      by (fastforce simp: dwell_inv_def)
  next
    case BannerTimeout
    with g dwell_inv_frame [OF assms] show ?thesis
      by (simp add: showConsentBanner_def split: option.splits)
  next
    case BannerRemoval
    with g dwell_inv_frame [OF assms] show ?thesis
      by (simp split: list.splits)
  next
    case (ConsentChoice a)
    with g dwell_inv_frame [OF assms] show ?thesis by simp
  next
    case (AnalyticsSetConsent v)
    with g dwell_inv_frame [OF assms] show ?thesis by simp
  next
    case (Observe es)
    show ?thesis
    proof (cases "section_observers w > 0")
      case True
      with Observe g observer_callback_dwell [of w clk vs es] assms show ?thesis by simp
    next
      case False
      with assms g have "sectionTimers w = []" "now w = clk"
        "\<And>sid t. vs sid = Some t \<Longrightarrow> t \<le> clk"
        by (auto simp: dwell_inv_def)
      with False Observe g seen_entries_le [of vs clk es] show ?thesis
        by (auto simp: dwell_inv_def)
    qed
  next
    case (SectionTimeout sid)
    with g dwell_inv_subset [OF assms, of "section_timeout sid w"]
      section_timeout_timers [where sid = sid and w = w] show ?thesis
      by simp
  next
    case (CtaClick a b)
    with g dwell_inv_frame [OF assms] show ?thesis by (simp add: funpow_frame)
  next
    case (FormSubmitted a)
    with g dwell_inv_frame [OF assms] show ?thesis by (simp add: funpow_frame)
  qed
qed

lemma run_dwell:
  "dwell_inv w g \<Longrightarrow> dwell_inv (snd (run P evs (pg, w))) (fold seen_event evs g)"
proof (induction evs arbitrary: pg w g)
  case Nil
  then show ?case by (simp add: run_def)
next
  case (Cons e evs)
  obtain pg' w' where s: "step P e (pg, w) = (pg', w')" by (cases "step P e (pg, w)")
  from step_dwell [OF Cons.prems, of P e pg] s have "dwell_inv w' (seen_event e g)" by simp
  from Cons.IH [OF this, of pg'] s show ?case by (simp add: run_def)
qed

lemma step_tracked:
  assumes "\<forall>pg'. e \<noteq> PageLoad pg'"
  shows "trackedSections w \<subseteq> trackedSections (snd (step P e (pg, w)))"
proof (cases e)
  case (PageLoad pg')
  with assms show ?thesis by simp
next
  case BannerTimeout
  then show ?thesis by (simp add: showConsentBanner_def split: option.splits)
next
  case BannerRemoval
  then show ?thesis by (simp split: list.splits)
next
  case (SectionTimeout sid)
  then show ?thesis using section_timeout_timers(3) [of w sid] by simp
qed (simp_all add: funpow_frame)

lemma run_tracked:
  "\<forall>pg'. PageLoad pg' \<notin> set evs \<Longrightarrow>
   trackedSections w \<subseteq> trackedSections (snd (run P evs (pg, w)))"
proof (induction evs arbitrary: pg w)
  case Nil
  then show ?case by (simp add: run_def)
next
  case (Cons e evs)
  obtain pg' w' where s: "step P e (pg, w) = (pg', w')" by (cases "step P e (pg, w)")
  from Cons.prems have ne: "\<forall>pg'. e \<noteq> PageLoad pg'" and rest: "\<forall>pg'. PageLoad pg' \<notin> set evs"
    by auto
  from step_tracked [OF ne, of w P pg] s have "trackedSections w \<subseteq> trackedSections w'" by simp
  moreover from Cons.IH [OF rest, of w' pg'] have "trackedSections w' \<subseteq> trackedSections (snd (run P evs (pg', w')))" .
  ultimately show ?case using s by (simp add: run_def)
qed

lemma section_timeout_fires:
  assumes "section_timeout sid w \<noteq> w"
  shows "\<exists>d nm. (sid, d, nm) \<in> set (sectionTimers w) \<and> d \<le> now w"
proof (cases "map_of (sectionTimers w) sid")
  case None
  with assms show ?thesis by (simp add: section_timeout_def)
next
  case (Some a)
  obtain d nm where a: "a = (d, nm)" by (cases a)
  from Some a have "(sid, d, nm) \<in> set (sectionTimers w)"
    by (simp add: map_of_SomeD)
  moreover from assms Some a have "d \<le> now w"
    by (auto simp: section_timeout_def split: if_splits)
  ultimately show ?thesis by blast
qed

lemma page_load_observers:
  "analytics_loaded pg \<Longrightarrow> truthy (opt_str (campaign_attr pg)) \<Longrightarrow> has_sections pg \<Longrightarrow>
   section_observers (page_load P pg w) = 1"
  by (simp add: page_load_def Let_def init_def banner_init_def fresh_page_def
        setupSectionObserver_def setupCTATracking_def setupFormTracking_def)


section \<open>The consent gate of the CRM sink\<close>

lemma no_consent_hsq:
  "\<not> user_consent w \<Longrightarrow> hsq (trackPageView P pg w) = hsq w"
  "\<not> user_consent w \<Longrightarrow> hsq (trackQRLanding w) = hsq w"
  "\<not> user_consent w \<Longrightarrow> hsq (trackSectionEngagement sid nm w) = hsq w"
  "\<not> user_consent w \<Longrightarrow> hsq (trackCTAClick a b w) = hsq w"
  "\<not> user_consent w \<Longrightarrow> hsq (trackFormSubmit a w) = hsq w"
proof -
  have uc: "user_consent (w\<lparr>trackedSections := s\<rparr>) = user_consent w" for s
    by (simp add: user_consent_def)
  assume "\<not> user_consent w"
  then show "hsq (trackPageView P pg w) = hsq w" "hsq (trackQRLanding w) = hsq w"
    "hsq (trackSectionEngagement sid nm w) = hsq w" "hsq (trackCTAClick a b w) = hsq w"
    "hsq (trackFormSubmit a w) = hsq w"
    by (simp_all add: trackPageView_def trackQRLanding_def trackSectionEngagement_def
          trackCTAClick_def trackFormSubmit_def Let_def sendHubSpotEvent_hsq uc)
qed

lemma user_consent_trackers [simp]:
  "user_consent (trackPageView P pg w) = user_consent w"
  "user_consent (trackQRLanding w) = user_consent w"
  "user_consent (trackSectionEngagement sid nm w) = user_consent w"
  "user_consent (trackCTAClick a b w) = user_consent w"
  "user_consent (trackFormSubmit a w) = user_consent w"
  "user_consent (init P pg w) = user_consent w"
  "user_consent (observer_callback es w) = user_consent w"
  "user_consent (section_timeout sid w) = user_consent w"
  by (simp_all add: user_consent_def)

lemma no_consent_hsq_init:
  "\<not> user_consent w \<Longrightarrow> hsq (init P pg w) = hsq w"
proof -
  have uc: "user_consent (w\<lparr>analyticsId := a, utmParams := u, isQR := q, pageLoadTime := t\<rparr>)
            = user_consent w" for a u q t
    by (simp add: user_consent_def)
  assume "\<not> user_consent w"
  then show ?thesis
    by (simp add: init_def Let_def no_consent_hsq uc
          setupSectionObserver_def setupCTATracking_def setupFormTracking_def)
qed

lemma no_consent_hsq_funpow:
  assumes "\<And>w. user_consent (f w) = user_consent w"
      and "\<And>w. \<not> user_consent w \<Longrightarrow> hsq (f w) = hsq w"
  shows "\<not> user_consent w \<Longrightarrow> hsq ((f ^^ n) w) = hsq w"
proof (induction n)
  case 0
  then show ?case by simp
next
  case (Suc n)
  have "user_consent ((f ^^ n) w) = user_consent w"
    by (induction n) (simp_all add: assms(1))
  with Suc assms(2) [of "(f ^^ n) w"] show ?case by simp
qed

lemma no_consent_hsq_timeout:
  "\<not> user_consent w \<Longrightarrow> hsq (section_timeout sid w) = hsq w"
  by (simp add: section_timeout_def Let_def no_consent_hsq split: option.splits)

lemma step_without_consent:
  assumes "\<not> user_consent (snd (step P e (pg, w)))"
  shows "hsq (snd (step P e (pg, w))) = hsq w \<or>
         (\<exists>pg'. e = PageLoad pg' \<and>
                hsq (snd (step P e (pg, w))) = (if hsq_loaded pg' then Some [] else None))"
proof (cases e)
  case (PageLoad pg')
  have uc: "user_consent (banner_init (fresh_page pg' w)) = user_consent w"
    by (simp add: user_consent_def banner_init_def fresh_page_def)
  have h: "hsq (banner_init (fresh_page pg' w)) = (if hsq_loaded pg' then Some [] else None)"
    by (simp add: banner_init_def fresh_page_def)
  from assms PageLoad have "\<not> user_consent (banner_init (fresh_page pg' w))"
    by (simp add: page_load_def Let_def split: if_splits)
  with PageLoad h show ?thesis
    by (simp add: page_load_def Let_def no_consent_hsq_init)
next
  case (Elapse n)
  then show ?thesis by simp
next
  case BannerTimeout
  then show ?thesis by (simp add: showConsentBanner_def split: option.splits)
next
  case BannerRemoval
  then show ?thesis by (simp split: list.splits)
next
  case (ConsentChoice a)
  let ?v = "if truthy a then ''true'' else ''false''"
  let ?w2 = "w\<lparr>jar := store_cookie
                   \<lparr>c_name = ''analytics-consent'', c_value = ?v,
                    c_expires = ((now w + 30 * 24 * 60 * 60 * 1000) div 1000) * 1000,
                    c_path = ''/''\<rparr> (jar w),
               local_store := (local_store w)(''analytics-consent'' \<mapsto> ?v)\<rparr>"
  from assms ConsentChoice have nc: "\<not> user_consent (banner_setConsent P pg ?v w)"
    by (simp add: handleConsentChoice_def Let_def user_consent_def split: if_splits)
  have "\<not> truthy a"
  proof
    assume "truthy a"
    then have "local_store (banner_setConsent P pg ?v w) ''analytics-consent'' = Some ''true''"
      by simp
    then have "user_consent (banner_setConsent P pg ?v w)"
      by (simp add: user_consent_def hasUserConsent_def)
    with nc show False by simp
  qed
  then have "hsq (banner_setConsent P pg ?v w) = hsq w"
    by (simp add: banner_setConsent_def Let_def)
  with ConsentChoice show ?thesis
    by (simp add: handleConsentChoice_def Let_def)
next
  case (AnalyticsSetConsent v)
  show ?thesis
  proof (cases "eventAnalytics w")
    case False
    with AnalyticsSetConsent show ?thesis by simp
  next
    case True
    with assms AnalyticsSetConsent
    have nc: "\<not> user_consent (EventAnalytics_setConsent P pg v w)" by simp
    have "\<not> truthy v"
    proof
      assume "truthy v"
      then have "local_store (EventAnalytics_setConsent P pg v w) ''analytics-consent'' = Some ''true''"
        by simp
      then have "user_consent (EventAnalytics_setConsent P pg v w)"
        by (simp add: user_consent_def hasUserConsent_def)
      with nc show False by simp
    qed
    then have "hsq (EventAnalytics_setConsent P pg v w) = hsq w"
      by (simp add: EventAnalytics_setConsent_def Let_def)
    with AnalyticsSetConsent True show ?thesis by simp
  qed
next
  case (Observe es)
  then show ?thesis by simp
next
  case (SectionTimeout sid)
  with assms show ?thesis by (simp add: no_consent_hsq_timeout)
next
  case (CtaClick a b)
  with assms have "\<not> user_consent w"
    by (simp add: user_consent_def funpow_frame)
  with CtaClick show ?thesis
    by (simp add: no_consent_hsq_funpow no_consent_hsq)
next
  case (FormSubmitted a)
  with assms have "\<not> user_consent w"
    by (simp add: user_consent_def funpow_frame)
  with FormSubmitted show ?thesis
    by (simp add: no_consent_hsq_funpow no_consent_hsq)
qed

text \<open>
  The gate of \<open>sendHubSpotEvent\<close>. Whatever the state, the call leaves everything as it is
  when \<open>hasUserConsent()\<close> is false at the call; the queue \<open>window._hsq\<close> changes only if
  \<open>hasUserConsent()\<close> is true at the call; with consent and a queue, the event is
  appended to the queue. And for the page as a whole: a browser event (a page load, a
  timeout, a consent choice, a call of the analytics setter, an observer callback, a
  click, a submission) that ends in a state without consent has pushed nothing to the
  queue; a page load has at most replaced it by the empty queue of the new page.
\<close>

lemma sendHubSpotEvent_consent_gate:
  "(\<not> user_consent w \<longrightarrow> sendHubSpotEvent n ps w = w) \<and>
   (hsq (sendHubSpotEvent n ps w) \<noteq> hsq w \<longrightarrow> user_consent w) \<and>
   (user_consent w \<longrightarrow> hsq w = Some q \<longrightarrow>
      (\<exists>props. hsq (sendHubSpotEvent n ps w) = Some (q @ [(n, props)]))) \<and>
   (\<not> user_consent (snd (step P e (pg, w))) \<longrightarrow>
      hsq (snd (step P e (pg, w))) = hsq w \<or>
      (\<exists>pg'. e = PageLoad pg' \<and>
             hsq (snd (step P e (pg, w))) = (if hsq_loaded pg' then Some [] else None)))"
proof (intro conjI impI)
  show "sendHubSpotEvent n ps w = w" if "\<not> user_consent w"
    using that by (simp add: sendHubSpotEvent_def)
  show "user_consent w" if "hsq (sendHubSpotEvent n ps w) \<noteq> hsq w"
    using that by (simp add: sendHubSpotEvent_def split: if_splits)
  show "\<exists>props. hsq (sendHubSpotEvent n ps w) = Some (q @ [(n, props)])"
    if "user_consent w" "hsq w = Some q"
    using that by (simp add: sendHubSpotEvent_def)
  show "hsq (snd (step P e (pg, w))) = hsq w \<or>
      (\<exists>pg'. e = PageLoad pg' \<and>
             hsq (snd (step P e (pg, w))) = (if hsq_loaded pg' then Some [] else None))"
    if "\<not> user_consent (snd (step P e (pg, w)))"
    using that by (rule step_without_consent)
qed

text \<open>The gate on the example browsers, without and with consent.\<close>

lemma sendHubSpotEvent_consent_gate_example:
  "\<not> user_consent ex_world \<and>
   sendHubSpotEvent ''CTA Click'' [] ex_world = ex_world \<and>
   user_consent ex_granted \<and>
   (\<exists>props. hsq (sendHubSpotEvent ''CTA Click'' [] ex_granted) = Some ([] @ [(''CTA Click'', props)])) \<and>
   \<not> user_consent (snd (step ex_pathname_of (CtaClick ''signup'' ''A'') (ex_page, ex_listening))) \<and>
   hsq (snd (step ex_pathname_of (CtaClick ''signup'' ''A'') (ex_page, ex_listening))) = Some []"
proof -
  have a: "\<not> user_consent ex_world"
    by (simp add: ex_world_def consent_eval)
  have b: "user_consent ex_granted"
    by (simp add: ex_granted_def ex_world_def consent_eval)
  have c: "hsq ex_granted = Some []"
    by (simp add: ex_granted_def ex_world_def)
  have d: "\<not> user_consent (snd (step ex_pathname_of (CtaClick ''signup'' ''A'') (ex_page, ex_listening)))"
    using a by (simp add: user_consent_def funpow_frame ex_listening_def)
  have e: "hsq ex_listening = Some []"
    by (simp add: ex_listening_def ex_world_def)
  from a b c sendHubSpotEvent_consent_gate [of ex_world "''CTA Click''" "[]"]
  have f: "sendHubSpotEvent ''CTA Click'' [] ex_world = ex_world" by blast
  from b c sendHubSpotEvent_consent_gate [of ex_granted "''CTA Click''" "[]" "[]"]
  have g: "\<exists>props. hsq (sendHubSpotEvent ''CTA Click'' [] ex_granted)
                  = Some ([] @ [(''CTA Click'', props)])" by blast
  from d e sendHubSpotEvent_consent_gate
             [of ex_listening "''x''" "[]" "[]" ex_pathname_of "CtaClick ''signup'' ''A''" ex_page]
  have h: "hsq (snd (step ex_pathname_of (CtaClick ''signup'' ''A'') (ex_page, ex_listening))) = Some []"
    by auto
  from a b d f g h show ?thesis by blast
qed

subsection \<open>The gate and the consent record\<close>

text \<open>
  Where the cookie holds no value for the consent key, or one of the two values that the
  banner writes, \<open>hasUserConsent()\<close> is the consent record: it is true exactly when a
  location holds the value \<open>true\<close>.
\<close>

lemma map_of_map_find_eq:
  "map_of (map f xs) k = map_option (\<lambda>x. snd (f x)) (find (\<lambda>x. fst (f x) = k) xs)"
proof (induction xs)
  case Nil
  then show ?case by simp
next
  case (Cons a xs)
  then show ?case by (cases "f a") simp
qed

lemma spec_cookie_value_consentCookie:
  "spec_cookie_value ck ''analytics-consent''
     = map_option (\<lambda>seg. snd (spec_cookie_pair (trim seg))) (consentCookie ck)"
  by (simp add: spec_cookie_value_def spec_cookie_pairs_def map_of_map_find_eq
        consentCookie_def startsWith_def pair_name_iff)

lemma sublist_dropWhile_ws:
  assumes "p \<noteq> []" "\<not> is_ws (hd p)"
  shows "sublist p (dropWhile is_ws s) = sublist p s"
proof (induction s)
  case Nil
  then show ?case by simp
next
  case (Cons x xs)
  show ?case
  proof (cases "is_ws x")
    case False
    then show ?thesis by simp
  next
    case True
    from assms True have "\<not> prefix p (x # xs)"
      by (cases p) auto
    with True Cons show ?thesis by (simp add: sublist_Cons_right)
  qed
qed

lemma sublist_trim:
  assumes "p \<noteq> []" "\<not> is_ws (hd p)" "\<not> is_ws (last p)"
  shows "sublist p (trim s) = sublist p s"
proof -
  let ?d = "dropWhile is_ws s"
  from assms have r: "rev p \<noteq> []" "\<not> is_ws (hd (rev p))"
    by (simp_all add: hd_rev)
  have "sublist p (trim s) = sublist (rev p) (dropWhile is_ws (rev ?d))"
    using sublist_rev [of "rev p" "dropWhile is_ws (rev ?d)"] by (simp add: trim_def)
  also have "\<dots> = sublist (rev p) (rev ?d)"
    by (rule sublist_dropWhile_ws [OF r])
  also have "\<dots> = sublist p ?d"
    by (rule sublist_rev)
  also have "\<dots> = sublist p s"
    by (rule sublist_dropWhile_ws [OF assms(1,2)])
  finally show ?thesis .
qed

lemma hasUserConsent_written_values:
  assumes "spec_cookie_value ck ''analytics-consent'' = None \<or>
           spec_cookie_value ck ''analytics-consent'' = Some ''true'' \<or>
           spec_cookie_value ck ''analytics-consent'' = Some ''false''"
  shows "hasUserConsent ck ls = spec_granted ck ls"
proof (cases "consentCookie ck")
  case None
  then show ?thesis
    by (simp add: hasUserConsent_def spec_granted_def spec_cookie_value_consentCookie)
next
  case (Some seg)
  let ?v = "snd (spec_cookie_pair (trim seg))"
  from Some have v: "spec_cookie_value ck ''analytics-consent'' = Some ?v"
    by (simp add: spec_cookie_value_consentCookie)
  from Some have "prefix ''analytics-consent='' (trim seg)"
    by (auto simp: consentCookie_def startsWith_def find_Some_iff)
  from pair_value_prefix [OF this] have t: "trim seg = ''analytics-consent='' @ ?v" .
  have "sublist ''true'' seg = sublist ''true'' (trim seg)"
    by (rule sublist_trim [symmetric]) (simp_all add: is_ws_def)
  also have "\<dots> = sublist ''true'' (''analytics-consent='' @ ?v)"
    by (simp only: t [symmetric])
  finally have s: "sublist ''true'' seg = sublist ''true'' (''analytics-consent='' @ ?v)" .
  from assms v have "?v = ''true'' \<or> ?v = ''false''" by simp
  then have "sublist ''true'' seg = (?v = ''true'')"
  proof
    assume "?v = ''true''"
    with s show ?thesis by (simp add: sublist_code)
  next
    assume "?v = ''false''"
    with s show ?thesis by (simp add: sublist_code)
  qed
  with Some v show ?thesis
    by (simp add: hasUserConsent_def spec_granted_def str_includes_def)
qed



section \<open>Section engagement: the events in the sinks\<close>

lemma obj_get_update:
  "obj_get (AList.update k v al) k' = (if k' = k then v else obj_get al k')"
  by (simp add: obj_get_def update_conv')

lemma obj_get_spread: "k \<notin> fst ` set b \<Longrightarrow> obj_get (spread a b) k = obj_get a k"
  unfolding spread_def
proof (induction b arbitrary: a)
  case Nil
  then show ?case by simp
next
  case (Cons x b)
  obtain k' v where x: "x = (k', v)" by (cases x)
  from Cons.prems x have "k \<noteq> k'" "k \<notin> fst ` set b" by auto
  with Cons.IH [of "AList.update k' v a"] x show ?case
    by (simp add: obj_get_update)
qed

lemma engagement_events_snoc:
  "engagement_events n sid (Some (l @ [ev])) =
     engagement_events n sid (Some l)
     + (if fst ev = n \<and> obj_get (snd ev) ''section_id'' = JStr sid then 1 else 0)"
  by (simp add: engagement_events_def)

lemma engagements_frame:
  "va w' = va w \<Longrightarrow> engagements_va sid w' = engagements_va sid w"
  "hsq w' = hsq w \<Longrightarrow> engagements_hsq sid w' = engagements_hsq sid w"
  by (simp_all add: engagements_va_def engagements_hsq_def)

lemma engagement_events_other:
  "fst ev \<noteq> n \<Longrightarrow> engagement_events n sid (Some (l @ [ev])) = engagement_events n sid (Some l)"
  by (simp add: engagement_events_def)

lemma engagements_send:
  "n \<noteq> ''section_engagement'' \<Longrightarrow>
     engagements_va sid (sendVercelEvent n p w) = engagements_va sid w"
  "engagements_va sid (sendHubSpotEvent n p w) = engagements_va sid w"
  "n \<noteq> ''Section Engagement'' \<Longrightarrow>
     engagements_hsq sid (sendHubSpotEvent n p w) = engagements_hsq sid w"
  "engagements_hsq sid (sendVercelEvent n p w) = engagements_hsq sid w"
proof -
  show "engagements_va sid (sendVercelEvent n p w) = engagements_va sid w"
    if ne: "n \<noteq> ''section_engagement''"
  proof (cases "va w")
    case None
    then have "va (sendVercelEvent n p w) = va w" by (simp add: sendVercelEvent_def)
    then show ?thesis by (rule engagements_frame)
  next
    case (Some calls)
    then obtain X where "va (sendVercelEvent n p w) = Some (calls @ [(n, X)])"
      by (simp add: sendVercelEvent_def)
    with Some engagement_events_other [of "(n, X)" "''section_engagement''" sid calls] ne
    show ?thesis unfolding engagements_va_def by simp
  qed
  show "engagements_hsq sid (sendHubSpotEvent n p w) = engagements_hsq sid w"
    if ne: "n \<noteq> ''Section Engagement''"
  proof (cases "user_consent w \<and> hsq w \<noteq> None")
    case False
    then have "hsq (sendHubSpotEvent n p w) = hsq w"
      by (auto simp: sendHubSpotEvent_def)
    then show ?thesis by (rule engagements_frame)
  next
    case True
    then obtain q where q: "hsq w = Some q" by auto
    with True obtain X where "hsq (sendHubSpotEvent n p w) = Some (q @ [(n, X)])"
      by (simp add: sendHubSpotEvent_def)
    with q engagement_events_other [of "(n, X)" "''Section Engagement''" sid q] ne
    show ?thesis unfolding engagements_hsq_def by simp
  qed
  show "engagements_va sid (sendHubSpotEvent n p w) = engagements_va sid w"
    by (rule engagements_frame) simp
  show "engagements_hsq sid (sendVercelEvent n p w) = engagements_hsq sid w"
    by (rule engagements_frame) simp
qed

lemma engagements_trackers [simp]:
  "engagements_va sid (trackPageView P pg w) = engagements_va sid w"
  "engagements_hsq sid (trackPageView P pg w) = engagements_hsq sid w"
  "engagements_va sid (trackQRLanding w) = engagements_va sid w"
  "engagements_hsq sid (trackQRLanding w) = engagements_hsq sid w"
  "engagements_va sid (trackCTAClick a b w) = engagements_va sid w"
  "engagements_hsq sid (trackCTAClick a b w) = engagements_hsq sid w"
  "engagements_va sid (trackFormSubmit a w) = engagements_va sid w"
  "engagements_hsq sid (trackFormSubmit a w) = engagements_hsq sid w"
  by (simp_all add: trackPageView_def trackQRLanding_def trackCTAClick_def trackFormSubmit_def
        Let_def engagements_send)

lemma utm_keys: "''section_id'' \<notin> fst ` set (getUTMParams pg)"
  by (simp add: getUTMParams_def Let_def)

lemma engagements_init [simp]:
  "engagements_va sid (init P pg w) = engagements_va sid w"
  "engagements_hsq sid (init P pg w) = engagements_hsq sid w"
proof -
  have e: "engagements_va sid (w\<lparr>analyticsId := a\<rparr>) = engagements_va sid w"
    "engagements_hsq sid (w\<lparr>analyticsId := a\<rparr>) = engagements_hsq sid w"
    "engagements_va sid (w\<lparr>analyticsId := a, utmParams := u, isQR := q, pageLoadTime := t\<rparr>)
       = engagements_va sid w"
    "engagements_hsq sid (w\<lparr>analyticsId := a, utmParams := u, isQR := q, pageLoadTime := t\<rparr>)
       = engagements_hsq sid w" for a u q t
    by (simp_all add: engagements_va_def engagements_hsq_def)
  have s: "engagements_va sid (setupFormTracking pg (setupCTATracking pg (setupSectionObserver pg w')))
             = engagements_va sid w'"
    "engagements_hsq sid (setupFormTracking pg (setupCTATracking pg (setupSectionObserver pg w')))
             = engagements_hsq sid w'" for w'
    by (simp_all add: engagements_va_def engagements_hsq_def)
  show "engagements_va sid (init P pg w) = engagements_va sid w"
    "engagements_hsq sid (init P pg w) = engagements_hsq sid w"
    by (simp_all add: init_def Let_def s e)
qed

lemma utm_init:
  "''section_id'' \<notin> fst ` set (utmParams w) \<Longrightarrow> ''section_id'' \<notin> fst ` set (utmParams (init P pg w))"
  using utm_keys [of pg]
  by (simp add: init_def Let_def setupSectionObserver_def setupCTATracking_def setupFormTracking_def)

lemma engagements_setters [simp]:
  "engagements_va sid (EventAnalytics_setConsent P pg v w) = engagements_va sid w"
  "engagements_hsq sid (EventAnalytics_setConsent P pg v w) = engagements_hsq sid w"
  "engagements_va sid (banner_setConsent P pg s w) = engagements_va sid w"
  "engagements_hsq sid (banner_setConsent P pg s w) = engagements_hsq sid w"
  "engagements_va sid (handleConsentChoice P pg v w) = engagements_va sid w"
  "engagements_hsq sid (handleConsentChoice P pg v w) = engagements_hsq sid w"
proof -
  have l: "engagements_va sid (w'\<lparr>local_store := ls\<rparr>) = engagements_va sid w'"
    "engagements_hsq sid (w'\<lparr>local_store := ls\<rparr>) = engagements_hsq sid w'"
    "engagements_va sid (w'\<lparr>jar := j\<rparr>) = engagements_va sid w'"
    "engagements_hsq sid (w'\<lparr>jar := j\<rparr>) = engagements_hsq sid w'"
    "engagements_va sid (w'\<lparr>banner_removals := r\<rparr>) = engagements_va sid w'"
    "engagements_hsq sid (w'\<lparr>banner_removals := r\<rparr>) = engagements_hsq sid w'" for w' ls j r
    by (simp_all add: engagements_va_def engagements_hsq_def)
  show a: "engagements_va sid (EventAnalytics_setConsent P pg v w) = engagements_va sid w"
    "engagements_hsq sid (EventAnalytics_setConsent P pg v w) = engagements_hsq sid w" for v w
    by (simp_all add: EventAnalytics_setConsent_def Let_def l)
  show b: "engagements_va sid (banner_setConsent P pg s w) = engagements_va sid w"
    "engagements_hsq sid (banner_setConsent P pg s w) = engagements_hsq sid w" for s w
    by (simp_all add: banner_setConsent_def Let_def l a)
  show "engagements_va sid (handleConsentChoice P pg v w) = engagements_va sid w"
    "engagements_hsq sid (handleConsentChoice P pg v w) = engagements_hsq sid w"
    by (simp_all add: handleConsentChoice_def Let_def l b)
qed

lemma utm_setters:
  assumes "''section_id'' \<notin> fst ` set (utmParams w)"
  shows "''section_id'' \<notin> fst ` set (utmParams (EventAnalytics_setConsent P pg v w))"
    and "''section_id'' \<notin> fst ` set (utmParams (banner_setConsent P pg s w))"
    and "''section_id'' \<notin> fst ` set (utmParams (handleConsentChoice P pg v w))"
proof -
  have a: "''section_id'' \<notin> fst ` set (utmParams (EventAnalytics_setConsent P pg v w'))"
    if "''section_id'' \<notin> fst ` set (utmParams w')" for v w'
    using that utm_init [of "w'\<lparr>local_store := (local_store w')(''analytics-consent'' \<mapsto> ''true'')\<rparr>" P pg]
    by (simp add: EventAnalytics_setConsent_def Let_def)
  show "''section_id'' \<notin> fst ` set (utmParams (EventAnalytics_setConsent P pg v w))"
    using assms by (rule a)
  have b: "''section_id'' \<notin> fst ` set (utmParams (banner_setConsent P pg s w'))"
    if "''section_id'' \<notin> fst ` set (utmParams w')" for s w'
    using that
      a [of "w'\<lparr>jar := store_cookie \<lparr>c_name = ''analytics-consent'', c_value = s,
                    c_expires = ((now w' + 30 * 24 * 60 * 60 * 1000) div 1000) * 1000,
                    c_path = ''/''\<rparr> (jar w'),
                  local_store := (local_store w')(''analytics-consent'' \<mapsto> s)\<rparr>" "JBool True"]
    by (auto simp: banner_setConsent_def Let_def)
  show "''section_id'' \<notin> fst ` set (utmParams (banner_setConsent P pg s w))"
    using assms by (rule b)
  show "''section_id'' \<notin> fst ` set (utmParams (handleConsentChoice P pg v w))"
    using b [OF assms] by (simp add: handleConsentChoice_def Let_def)
qed

lemma tracked_setters [simp]:
  "trackedSections (EventAnalytics_setConsent P pg v w) = trackedSections w"
  "trackedSections (banner_setConsent P pg s w) = trackedSections w"
  by simp_all

lemma engagement_va_props:
  "''section_id'' \<notin> fst ` set u \<Longrightarrow>
   obj_get (spread (spread [(''section_id'', JStr s), (''section_name'', JStr nm), (''time_to_view'', t)]
                      [(''analytics_id'', a), (''is_qr'', q)]) u) ''section_id'' = JStr s"
  by (simp add: obj_get_spread) (simp add: obj_get_def)

lemma engagement_hsq_props:
  "obj_get (spread [(''event_type'', e), (''section_id'', JStr s), (''section_name'', JStr nm),
                    (''engagement_threshold'', th)]
              [(''analytics_id'', a), (''is_qr'', q), (''campaign'', c), (''source'', so),
               (''medium'', m)]) ''section_id'' = JStr s"
  by (simp add: obj_get_spread) (simp add: obj_get_def)

lemma engagements_track:
  assumes nt: "s \<notin> trackedSections w" and utm: "''section_id'' \<notin> fst ` set (utmParams w)"
  shows "engagements_va sid (trackSectionEngagement s nm w) =
           engagements_va sid w + (if va w \<noteq> None \<and> s = sid then 1 else 0)"
    and "engagements_hsq sid (trackSectionEngagement s nm w) =
           engagements_hsq sid w + (if user_consent w \<and> hsq w \<noteq> None \<and> s = sid then 1 else 0)"
proof -
  let ?w1 = "w\<lparr>trackedSections := insert s (trackedSections w)\<rparr>"
  have uc: "user_consent ?w1 = user_consent w" by (simp add: user_consent_def)
  show "engagements_va sid (trackSectionEngagement s nm w) =
           engagements_va sid w + (if va w \<noteq> None \<and> s = sid then 1 else 0)"
  proof (cases "va w")
    case None
    with nt show ?thesis
      by (simp add: trackSectionEngagement_def engagements_va_def sendVercelEvent_va)
  next
    case (Some calls)
    let ?ev = "(''section_engagement'',
                spread (spread [(''section_id'', JStr s), (''section_name'', JStr nm),
                                (''time_to_view'', time_to_view w)]
                          [(''analytics_id'', analyticsId w), (''is_qr'', JBool (isQR w))])
                       (utmParams w))"
    have tv: "time_to_view ?w1 = time_to_view w" by (simp add: time_to_view_def split: option.splits)
    from nt Some have "va (trackSectionEngagement s nm w) = Some (calls @ [?ev])"
      by (simp add: trackSectionEngagement_def sendVercelEvent_va tv)
    then have "engagements_va sid (trackSectionEngagement s nm w)
               = engagement_events ''section_engagement'' sid (Some calls)
                 + (if JStr s = JStr sid then 1 else 0)"
      using engagement_va_props [OF utm]
      by (simp add: engagements_va_def engagement_events_snoc)
    with Some show ?thesis by (simp add: engagements_va_def)
  qed
  show "engagements_hsq sid (trackSectionEngagement s nm w) =
           engagements_hsq sid w + (if user_consent w \<and> hsq w \<noteq> None \<and> s = sid then 1 else 0)"
  proof (cases "user_consent w \<and> hsq w \<noteq> None")
    case False
    with nt uc have "hsq (trackSectionEngagement s nm w) = hsq w"
      by (auto simp: trackSectionEngagement_def sendHubSpotEvent_hsq)
    with False show ?thesis by (auto simp: engagements_hsq_def)
  next
    case True
    then obtain q where q: "hsq w = Some q" by auto
    let ?ev = "(''Section Engagement'',
                spread [(''event_type'', JStr ''section_engagement''), (''section_id'', JStr s),
                        (''section_name'', JStr nm),
                        (''engagement_threshold'', JStr ''50% visible for 2s'')]
                  [(''analytics_id'', analyticsId w), (''is_qr'', JBool (isQR w)),
                   (''campaign'', obj_get (utmParams w) ''campaign''),
                   (''source'', obj_get (utmParams w) ''source''),
                   (''medium'', obj_get (utmParams w) ''medium'')])"
    from nt True q uc have "hsq (trackSectionEngagement s nm w) = Some (q @ [?ev])"
      by (simp add: trackSectionEngagement_def sendHubSpotEvent_hsq)
    then have "engagements_hsq sid (trackSectionEngagement s nm w)
               = engagement_events ''Section Engagement'' sid (Some q)
                 + (if JStr s = JStr sid then 1 else 0)"
      using engagement_hsq_props
      by (simp add: engagements_hsq_def engagement_events_snoc)
    with True q show ?thesis by (simp add: engagements_hsq_def)
  qed
qed

lemma track_utm [simp]:
  "utmParams (trackSectionEngagement s nm w) = utmParams w"
  "utmParams (trackCTAClick a b w) = utmParams w"
  "utmParams (trackFormSubmit a w) = utmParams w"
  "utmParams (handle_entry e w) = utmParams w"
  by (simp_all add: trackSectionEngagement_def trackCTAClick_def trackFormSubmit_def
        handle_entry_def Let_def)

lemma observer_callback_utm [simp]: "utmParams (observer_callback es w) = utmParams w"
  unfolding observer_callback_def by (induction es arbitrary: w) simp_all

lemma tracked_insert:
  "trackedSections (trackSectionEngagement s nm w) = insert s (trackedSections w)"
  by (auto simp: trackSectionEngagement_def)

lemma once_inv_frame:
  assumes "once_inv w"
    and "\<And>sid. engagements_va sid w' = engagements_va sid w"
    and "\<And>sid. engagements_hsq sid w' = engagements_hsq sid w"
    and "trackedSections w \<subseteq> trackedSections w'"
    and "''section_id'' \<notin> fst ` set (utmParams w')"
  shows "once_inv w'"
proof -
  from assms(1) have z: "\<And>sid. sid \<notin> trackedSections w \<Longrightarrow>
                            engagements_va sid w = 0 \<and> engagements_hsq sid w = 0"
    and o: "\<And>sid. engagements_va sid w \<le> 1 \<and> engagements_hsq sid w \<le> 1"
    by (simp_all add: once_inv_def)
  have "engagements_va sid w' = 0 \<and> engagements_hsq sid w' = 0"
    if "sid \<notin> trackedSections w'" for sid
  proof -
    from that assms(4) have "sid \<notin> trackedSections w" by blast
    from z [OF this] show ?thesis by (simp add: assms(2,3))
  qed
  moreover have "engagements_va sid w' \<le> 1 \<and> engagements_hsq sid w' \<le> 1" for sid
    using o [of sid] by (simp add: assms(2,3))
  ultimately show ?thesis
    using assms(5) unfolding once_inv_def by blast
qed

lemma timers_update_counts [simp]:
  "engagements_va sid (w\<lparr>sectionTimers := t\<rparr>) = engagements_va sid w"
  "engagements_hsq sid (w\<lparr>sectionTimers := t\<rparr>) = engagements_hsq sid w"
  by (simp_all add: engagements_va_def engagements_hsq_def)

lemma once_inv_track:
  assumes "once_inv w"
  shows "once_inv (trackSectionEngagement s nm w)"
proof (cases "s \<in> trackedSections w")
  case True
  with assms show ?thesis by (simp add: trackSectionEngagement_def)
next
  case False
  from assms have utm: "''section_id'' \<notin> fst ` set (utmParams w)"
    and z: "\<And>sid. sid \<notin> trackedSections w \<Longrightarrow>
                            engagements_va sid w = 0 \<and> engagements_hsq sid w = 0"
    and o: "\<And>sid. engagements_va sid w \<le> 1 \<and> engagements_hsq sid w \<le> 1"
    by (simp_all add: once_inv_def)
  note c = engagements_track [OF False utm]
  have "engagements_va sid (trackSectionEngagement s nm w) = 0 \<and>
        engagements_hsq sid (trackSectionEngagement s nm w) = 0"
    if "sid \<notin> trackedSections (trackSectionEngagement s nm w)" for sid
  proof -
    from that have "sid \<noteq> s" "sid \<notin> trackedSections w" by (auto simp: tracked_insert)
    with z [of sid] show ?thesis by (auto simp: c)
  qed
  moreover have "engagements_va sid (trackSectionEngagement s nm w) \<le> 1 \<and>
        engagements_hsq sid (trackSectionEngagement s nm w) \<le> 1" for sid
    using o [of sid] z [OF False] by (auto simp: c)
  ultimately show ?thesis
    using utm unfolding once_inv_def by simp
qed

lemma track_increase:
  assumes "once_inv w"
    and "engagements_va sid w < engagements_va sid (trackSectionEngagement s nm w) \<or>
         engagements_hsq sid w < engagements_hsq sid (trackSectionEngagement s nm w)"
  shows "s = sid"
proof (cases "s \<in> trackedSections w")
  case True
  with assms(2) show ?thesis by (simp add: trackSectionEngagement_def)
next
  case False
  from assms(1) have utm: "''section_id'' \<notin> fst ` set (utmParams w)"
    by (simp add: once_inv_def)
  from assms(2) show ?thesis
    by (auto simp: engagements_track [OF False utm] split: if_splits)
qed

lemma once_inv_timeout: "once_inv w \<Longrightarrow> once_inv (section_timeout s w)"
proof -
  assume a: "once_inv w"
  have u: "once_inv (w'\<lparr>sectionTimers := t\<rparr>)" if "once_inv w'" for w' t
    using that by (simp add: once_inv_def)
  show ?thesis
    using a by (auto simp: section_timeout_def Let_def once_inv_track u split: option.splits)
qed

lemma timeout_increase:
  assumes "once_inv w"
    and "engagements_va sid w < engagements_va sid (section_timeout s w) \<or>
         engagements_hsq sid w < engagements_hsq sid (section_timeout s w)"
  shows "s = sid \<and> section_timeout sid w \<noteq> w"
proof -
  from assms(2) have ne: "section_timeout s w \<noteq> w" by auto
  then obtain d nm where t: "map_of (sectionTimers w) s = Some (d, nm)" and due: "d \<le> now w"
    by (auto simp: section_timeout_def split: option.splits if_splits)
  with assms(2) have "engagements_va sid w < engagements_va sid (trackSectionEngagement s nm w) \<or>
         engagements_hsq sid w < engagements_hsq sid (trackSectionEngagement s nm w)"
    by (simp add: section_timeout_def Let_def)
  from track_increase [OF assms(1) this] ne show ?thesis by simp
qed

lemma page_load_once: "once_inv (page_load P pg w)"
proof -
  let ?f = "banner_init (fresh_page pg w)"
  have f: "once_inv ?f"
    by (simp add: once_inv_def engagements_va_def engagements_hsq_def engagement_events_def
          banner_init_def fresh_page_def)
  have "once_inv (init P pg ?f)"
    using f by (rule once_inv_frame) (simp_all add: utm_init once_inv_def [symmetric] f [unfolded once_inv_def])
  with f show ?thesis by (simp add: page_load_def Let_def)
qed

lemma page_load_counts:
  "engagements_va sid (page_load P pg w) = 0" "engagements_hsq sid (page_load P pg w) = 0"
proof -
  have "engagements_va sid (banner_init (fresh_page pg w)) = 0"
    "engagements_hsq sid (banner_init (fresh_page pg w)) = 0"
    by (simp_all add: engagements_va_def engagements_hsq_def engagement_events_def
          banner_init_def fresh_page_def)
  then show "engagements_va sid (page_load P pg w) = 0" "engagements_hsq sid (page_load P pg w) = 0"
    by (simp_all add: page_load_def Let_def)
qed

lemma funpow_counts:
  assumes "\<And>w sid. engagements_va sid (f w) = engagements_va sid w"
      and "\<And>w sid. engagements_hsq sid (f w) = engagements_hsq sid w"
  shows "engagements_va sid ((f ^^ n) w) = engagements_va sid w"
    and "engagements_hsq sid ((f ^^ n) w) = engagements_hsq sid w"
  by (induction n) (simp_all add: assms)

lemma step_counts:
  assumes "\<forall>s. e \<noteq> SectionTimeout s" "\<forall>pg'. e \<noteq> PageLoad pg'"
  shows "engagements_va sid (snd (step P e (pg, w))) = engagements_va sid w \<and>
         engagements_hsq sid (snd (step P e (pg, w))) = engagements_hsq sid w"
proof (cases e)
  case (PageLoad pg')
  with assms show ?thesis by simp
next
  case (SectionTimeout s)
  with assms show ?thesis by simp
next
  case (Elapse n)
  then show ?thesis by (simp add: engagements_va_def engagements_hsq_def)
next
  case BannerTimeout
  then show ?thesis
    by (simp add: engagements_va_def engagements_hsq_def showConsentBanner_def
          split: option.splits)
next
  case BannerRemoval
  then show ?thesis
    by (simp add: engagements_va_def engagements_hsq_def split: list.splits)
next
  case (ConsentChoice a)
  then show ?thesis by simp
next
  case (AnalyticsSetConsent v)
  then show ?thesis by simp
next
  case (Observe es)
  then show ?thesis by (simp add: engagements_va_def engagements_hsq_def)
next
  case (CtaClick a b)
  then show ?thesis
    using funpow_counts [of "trackCTAClick a (if b = ''A'' then ''link'' else ''button'')" sid "cta_listeners w" w]
    by simp
next
  case (FormSubmitted a)
  then show ?thesis
    using funpow_counts [of "trackFormSubmit (case a of None \<Rightarrow> ''contact'' | Some t \<Rightarrow> if t \<noteq> [] then t else ''contact'')" sid "form_listeners w" w]
    by simp
qed

lemma click_utm [simp]:
  "utmParams (trackCTAClick a b w) = utmParams w"
  "utmParams (trackFormSubmit c w) = utmParams w"
  by (simp_all add: trackCTAClick_def trackFormSubmit_def)

lemma step_keeps:
  assumes "\<forall>s. e \<noteq> SectionTimeout s" "\<forall>pg'. e \<noteq> PageLoad pg'"
    and "''section_id'' \<notin> fst ` set (utmParams w)"
  shows "''section_id'' \<notin> fst ` set (utmParams (snd (step P e (pg, w))))"
proof (cases e)
  case (PageLoad pg')
  with assms show ?thesis by simp
next
  case (SectionTimeout s)
  with assms show ?thesis by simp
next
  case (Elapse n)
  with assms(3) show ?thesis by simp
next
  case BannerTimeout
  with assms(3) show ?thesis by (simp add: showConsentBanner_def split: option.splits)
next
  case BannerRemoval
  with assms(3) show ?thesis by (simp split: list.splits)
next
  case (ConsentChoice a)
  with utm_setters(3) [OF assms(3), of P pg a] show ?thesis by simp
next
  case (AnalyticsSetConsent v)
  with utm_setters(1) [OF assms(3), of P pg v] assms(3) show ?thesis by simp
next
  case (Observe es)
  with assms(3) show ?thesis by simp
next
  case (CtaClick a b)
  with assms(3) show ?thesis by (simp add: funpow_frame)
next
  case (FormSubmitted a)
  with assms(3) show ?thesis by (simp add: funpow_frame)
qed

lemma step_once:
  assumes "once_inv w"
  shows "once_inv (snd (step P e (pg, w)))"
proof (cases "\<exists>pg'. e = PageLoad pg'")
  case True
  then show ?thesis by (auto simp: page_load_once)
next
  case np: False
  show ?thesis
  proof (cases "\<exists>s. e = SectionTimeout s")
    case True
    with assms show ?thesis by (auto simp: once_inv_timeout)
  next
    case False
    from assms have u: "''section_id'' \<notin> fst ` set (utmParams w)" by (simp add: once_inv_def)
    from np have np': "\<forall>pg'. e \<noteq> PageLoad pg'" by simp
    from False have nt: "\<forall>s. e \<noteq> SectionTimeout s" by simp
    show ?thesis
      using assms
    proof (rule once_inv_frame)
      show "engagements_va sid (snd (step P e (pg, w))) = engagements_va sid w" for sid
        using step_counts [OF nt np', of sid P pg w] by simp
      show "engagements_hsq sid (snd (step P e (pg, w))) = engagements_hsq sid w" for sid
        using step_counts [OF nt np', of sid P pg w] by simp
      show "trackedSections w \<subseteq> trackedSections (snd (step P e (pg, w)))"
        by (rule step_tracked [OF np'])
      show "''section_id'' \<notin> fst ` set (utmParams (snd (step P e (pg, w))))"
        by (rule step_keeps [OF nt np' u])
    qed
  qed
qed

lemma step_increase:
  assumes "once_inv w"
    and "engagements_va sid w < engagements_va sid (snd (step P e (pg, w))) \<or>
         engagements_hsq sid w < engagements_hsq sid (snd (step P e (pg, w)))"
  shows "e = SectionTimeout sid \<and> section_timeout sid w \<noteq> w"
proof (cases "\<exists>s. e = SectionTimeout s")
  case True
  then obtain s where e: "e = SectionTimeout s" by blast
  with assms(2) have "engagements_va sid w < engagements_va sid (section_timeout s w) \<or>
         engagements_hsq sid w < engagements_hsq sid (section_timeout s w)" by simp
  from timeout_increase [OF assms(1) this] e show ?thesis by simp
next
  case False
  then have nt: "\<forall>s. e \<noteq> SectionTimeout s" by simp
  show ?thesis
  proof (cases "\<exists>pg'. e = PageLoad pg'")
    case True
    then obtain pg' where "e = PageLoad pg'" by blast
    with assms(2) show ?thesis by (simp add: page_load_counts)
  next
    case no: False
    then have np: "\<forall>pg'. e \<noteq> PageLoad pg'" by simp
    from step_counts [OF nt np, of sid P pg w] assms(2) show ?thesis by simp
  qed
qed

lemma run_once:
  "once_inv w \<Longrightarrow> once_inv (snd (run P evs (pg, w)))"
proof (induction evs arbitrary: pg w)
  case Nil
  then show ?case by (simp add: run_def)
next
  case (Cons e evs)
  obtain pg' w' where s: "step P e (pg, w) = (pg', w')" by (cases "step P e (pg, w)")
  from step_once [OF Cons.prems, of P e pg] s have "once_inv w'" by simp
  from Cons.IH [OF this, of pg'] s show ?case by (simp add: run_def)
qed

lemma init_va_defined: "va (init P pg w) = None \<longleftrightarrow> va w = None"
  using init_names(1) [of P pg w] by (cases "va w"; cases "va (init P pg w)") simp_all

text \<open>
  C8. Within a page load the engagement events of a section identifier reach each sink at
  most once, and only from the section's timeout after the dwell time. A call of
  \<open>trackSectionEngagement\<close> for an identifier that is already tracked changes nothing,
  every call leaves its identifier tracked, and within a page load (a sequence of events
  without a page load) a tracked identifier stays tracked. After a page load and any
  sequence of events, each sink holds at most one engagement event of the current page
  for each identifier (\<open>section_engagement\<close> in the generic sink, \<open>Section Engagement\<close>
  in the CRM queue), and still does after a further call of \<open>trackSectionEngagement\<close>.
  The only event of the browser that adds an engagement event for an identifier to a sink
  is the timeout of that section, and it adds one only if, by the observer's entries, the
  section has been visible without interruption for at least the dwell time of 2000 ms up
  to that moment: an entry below the threshold cancels the pending timeout, and the next
  visible entry starts the time again from zero.
\<close>

theorem section_engagement_once_after_dwell:
  "(sid \<in> trackedSections w \<longrightarrow> trackSectionEngagement sid nm w = w) \<and>
   sid \<in> trackedSections (trackSectionEngagement sid nm w) \<and>
   ((\<forall>pg'. PageLoad pg' \<notin> set evs) \<longrightarrow>
      trackedSections w \<subseteq> trackedSections (snd (run P evs (pg, w)))) \<and>
   engagements_va sid (snd (run P (PageLoad pg1 # evs) (pg, w))) \<le> 1 \<and>
   engagements_hsq sid (snd (run P (PageLoad pg1 # evs) (pg, w))) \<le> 1 \<and>
   engagements_va sid (trackSectionEngagement s nm (snd (run P (PageLoad pg1 # evs) (pg, w)))) \<le> 1 \<and>
   engagements_hsq sid (trackSectionEngagement s nm (snd (run P (PageLoad pg1 # evs) (pg, w)))) \<le> 1 \<and>
   (engagements_va sid (snd (run P (PageLoad pg1 # evs) (pg, w)))
      < engagements_va sid (snd (step P e (run P (PageLoad pg1 # evs) (pg, w)))) \<or>
    engagements_hsq sid (snd (run P (PageLoad pg1 # evs) (pg, w)))
      < engagements_hsq sid (snd (step P e (run P (PageLoad pg1 # evs) (pg, w)))) \<longrightarrow>
    e = SectionTimeout sid \<and>
    (\<exists>t. visible_since (now w) (PageLoad pg1 # evs) sid = Some t \<and>
         t + sectionEngagementTime \<le> now (snd (run P (PageLoad pg1 # evs) (pg, w))))) \<and>
   (section_timeout sid (snd (run P (PageLoad pg1 # evs) (pg, w)))
      \<noteq> snd (run P (PageLoad pg1 # evs) (pg, w)) \<longrightarrow>
    (\<exists>t. visible_since (now w) (PageLoad pg1 # evs) sid = Some t \<and>
         t + sectionEngagementTime \<le> now (snd (run P (PageLoad pg1 # evs) (pg, w))))) \<and>
   sectionEngagementTime = 2000"
proof -
  let ?w' = "snd (run P (PageLoad pg1 # evs) (pg, w))"
  let ?g = "fold seen_event evs (now w, Map.empty)"
  have r: "?w' = snd (run P evs (pg1, page_load P pg1 w))"
    by (simp add: run_def)
  have once: "once_inv ?w'"
    unfolding r by (rule run_once) (rule page_load_once)
  have dwell: "\<exists>t. visible_since (now w) (PageLoad pg1 # evs) sid = Some t \<and>
         t + sectionEngagementTime \<le> now ?w'"
    if fires: "section_timeout sid ?w' \<noteq> ?w'"
  proof -
    have "dwell_inv (page_load P pg1 w) (now w, Map.empty)"
      by (simp add: dwell_inv_def page_load_timers page_load_banner)
    from run_dwell [OF this, of P evs pg1] r have inv: "dwell_inv ?w' ?g" by simp
    from section_timeout_fires [OF fires] obtain d nm'
      where t: "(sid, d, nm') \<in> set (sectionTimers ?w')" and due: "d \<le> now ?w'" by blast
    from inv t obtain t0 where "snd ?g sid = Some t0" "t0 + sectionEngagementTime \<le> d"
      unfolding dwell_inv_def by blast
    moreover have "visible_since (now w) (PageLoad pg1 # evs) sid = snd ?g sid"
      by (simp add: visible_since_def)
    ultimately show ?thesis using due by auto
  qed
  have c1: "sid \<in> trackedSections w \<longrightarrow> trackSectionEngagement sid nm w = w"
    by (simp add: trackSectionEngagement_def)
  have c2: "sid \<in> trackedSections (trackSectionEngagement sid nm w)"
    by (simp add: trackSectionEngagement_def)
  have c3: "(\<forall>pg'. PageLoad pg' \<notin> set evs) \<longrightarrow>
      trackedSections w \<subseteq> trackedSections (snd (run P evs (pg, w)))"
    using run_tracked [of evs w P pg] by blast
  have c4: "engagements_va sid ?w' \<le> 1 \<and> engagements_hsq sid ?w' \<le> 1"
    using once by (simp add: once_inv_def)
  have c5: "engagements_va sid (trackSectionEngagement s nm ?w') \<le> 1 \<and>
            engagements_hsq sid (trackSectionEngagement s nm ?w') \<le> 1"
    using once_inv_track [OF once, of s nm] by (simp add: once_inv_def)
  have c6: "e = SectionTimeout sid \<and>
    (\<exists>t. visible_since (now w) (PageLoad pg1 # evs) sid = Some t \<and>
         t + sectionEngagementTime \<le> now ?w')"
    if inc: "engagements_va sid ?w'
        < engagements_va sid (snd (step P e (run P (PageLoad pg1 # evs) (pg, w)))) \<or>
      engagements_hsq sid ?w'
        < engagements_hsq sid (snd (step P e (run P (PageLoad pg1 # evs) (pg, w))))"
  proof -
    obtain pg2 w2 where R: "run P (PageLoad pg1 # evs) (pg, w) = (pg2, w2)"
      by (cases "run P (PageLoad pg1 # evs) (pg, w)")
    then have w2: "?w' = w2" by simp
    from once w2 have o2: "once_inv w2" by simp
    from inc R have "engagements_va sid w2 < engagements_va sid (snd (step P e (pg2, w2))) \<or>
      engagements_hsq sid w2 < engagements_hsq sid (snd (step P e (pg2, w2)))" by simp
    from step_increase [OF o2 this] have e: "e = SectionTimeout sid"
      and f: "section_timeout sid w2 \<noteq> w2" by simp_all
    from f w2 have "section_timeout sid ?w' \<noteq> ?w'" by simp
    from dwell [OF this] e show ?thesis by simp
  qed
  have c7: "sectionEngagementTime = 2000"
    by (simp add: sectionEngagementTime_def)
  from c6 have c6': "engagements_va sid ?w'
        < engagements_va sid (snd (step P e (run P (PageLoad pg1 # evs) (pg, w)))) \<or>
      engagements_hsq sid ?w'
        < engagements_hsq sid (snd (step P e (run P (PageLoad pg1 # evs) (pg, w)))) \<longrightarrow>
    e = SectionTimeout sid \<and>
    (\<exists>t. visible_since (now w) (PageLoad pg1 # evs) sid = Some t \<and>
         t + sectionEngagementTime \<le> now ?w')" by (rule impI)
  from dwell have c8: "section_timeout sid ?w' \<noteq> ?w' \<longrightarrow>
    (\<exists>t. visible_since (now w) (PageLoad pg1 # evs) sid = Some t \<and>
         t + sectionEngagementTime \<le> now ?w')" by (rule impI)
  from c4 have c4a: "engagements_va sid ?w' \<le> 1" and c4b: "engagements_hsq sid ?w' \<le> 1"
    by (rule conjunct1, rule conjunct2)
  from c5 have c5a: "engagements_va sid (trackSectionEngagement s nm ?w') \<le> 1"
    and c5b: "engagements_hsq sid (trackSectionEngagement s nm ?w') \<le> 1"
    by (rule conjunct1, rule conjunct2)
  show ?thesis
    by (intro conjI) (rule c1 c2 c3 c4a c4b c5a c5b c6' c8 c7)+
qed

theorem section_engagement_once_after_dwell_witness:
  "engagements_va ''pricing''
     (snd (run ex_pathname_of (PageLoad ex_page # ex_visits) (ex_page, ex_world))) = 0 \<and>
   engagements_va ''pricing''
     (snd (step ex_pathname_of (SectionTimeout ''pricing'')
        (run ex_pathname_of (PageLoad ex_page # ex_visits) (ex_page, ex_world)))) = 1 \<and>
   visible_since (now ex_world) (PageLoad ex_page # ex_visits) ''pricing'' = Some 1600 \<and>
   now (snd (run ex_pathname_of (PageLoad ex_page # ex_visits) (ex_page, ex_world))) = 3600 \<and>
   (1600::int) + sectionEngagementTime \<le> 3600 \<and>
   section_timeout ''pricing'' (snd (run ex_pathname_of (PageLoad ex_page # ex_visits) (ex_page, ex_world)))
     \<noteq> snd (run ex_pathname_of (PageLoad ex_page # ex_visits) (ex_page, ex_world)) \<and>
   ''pricing'' \<in> trackedSections
     (snd (step ex_pathname_of (SectionTimeout ''pricing'')
        (run ex_pathname_of (PageLoad ex_page # ex_visits) (ex_page, ex_world)))) \<and>
   trackSectionEngagement ''pricing'' ''pricing-section''
     (snd (step ex_pathname_of (SectionTimeout ''pricing'')
        (run ex_pathname_of (PageLoad ex_page # ex_visits) (ex_page, ex_world))))
     = snd (step ex_pathname_of (SectionTimeout ''pricing'')
        (run ex_pathname_of (PageLoad ex_page # ex_visits) (ex_page, ex_world))) \<and>
   (\<forall>pg'. PageLoad pg' \<notin> set ex_visits) \<and>
   trackedSections ex_world
     \<subseteq> trackedSections (snd (run ex_pathname_of ex_visits (ex_page, ex_world)))"
proof -
  let ?R = "run ex_pathname_of (PageLoad ex_page # ex_visits) (ex_page, ex_world)"
  let ?w' = "snd ?R"
  let ?w0 = "page_load ex_pathname_of ex_page ex_world"
  have obs: "section_observers ?w0 = 1"
    by (rule page_load_observers) (simp_all add: ex_page_def opt_str_def)
  have n0: "now ex_world = 0" by (simp add: ex_world_def)
  have T: "sectionTimers ?w' = [(''pricing'', 3600, ''pricing-section'')]"
    by (simp add: run_def ex_visits_def observer_callback_def handle_entry_timers
          page_load_timers page_load_banner obs n0 ex_entry_def sectionEngagementTime_def
          sectionVisibilityThreshold_def)
  have N: "now ?w' = 3600"
    by (simp add: run_def ex_visits_def page_load_banner obs n0)
  have V: "visible_since (now ex_world) (PageLoad ex_page # ex_visits) ''pricing'' = Some 1600"
    by (simp add: visible_since_def ex_visits_def seen_entry_def entry_visible_def ex_entry_def
          sectionVisibilityThreshold_def n0)
  have fst_R: "fst ?R = ex_page"
    by (simp add: run_def ex_visits_def obs)
  have tr0: "trackedSections ?w0 = {}"
    by (simp add: page_load_def Let_def fresh_page_def banner_init_def)
  have tr: "trackedSections ?w' = {}"
    by (simp add: run_def ex_visits_def obs tr0)
  have "va ?w' = va ?w0"
    by (simp add: run_def ex_visits_def obs)
  moreover have "va ?w0 \<noteq> None"
    by (simp add: page_load_def Let_def init_va_defined ex_page_def fresh_page_def banner_init_def)
  ultimately have va: "va ?w' \<noteq> None" by simp
  have once: "once_inv ?w'"
    using run_once [OF page_load_once [of ex_pathname_of ex_page ex_world],
                    where P = ex_pathname_of and evs = ex_visits and pg = ex_page]
    by (simp add: run_def)
  then have utm: "''section_id'' \<notin> fst ` set (utmParams ?w')"
    and zero: "engagements_va ''pricing'' ?w' = 0"
    using tr by (simp_all add: once_inv_def)
  have nt: "''pricing'' \<notin> trackedSections ?w'" using tr by simp
  have st: "section_timeout ''pricing'' ?w'
        = (trackSectionEngagement ''pricing'' ''pricing-section'' ?w')
            \<lparr>sectionTimers := filter (\<lambda>t. fst t \<noteq> ''pricing'')
               (sectionTimers (trackSectionEngagement ''pricing'' ''pricing-section'' ?w'))\<rparr>"
    by (simp add: section_timeout_def T N Let_def)
  have "engagements_va ''pricing'' (section_timeout ''pricing'' ?w') = 1"
    unfolding st using engagements_track(1) [OF nt utm, of "''pricing''" "''pricing-section''"] va zero
    by simp
  moreover have "snd (step ex_pathname_of (SectionTimeout ''pricing'') ?R)
        = section_timeout ''pricing'' ?w'"
    by (cases ?R) simp
  ultimately have one: "engagements_va ''pricing''
     (snd (step ex_pathname_of (SectionTimeout ''pricing'') ?R)) = 1" by simp
  have "sectionTimers (section_timeout ''pricing'' ?w') = []"
    by (simp add: st T)
  with T have fires: "section_timeout ''pricing'' ?w' \<noteq> ?w'"
    by auto
  have np: "\<forall>pg'. PageLoad pg' \<notin> set ex_visits"
    by (simp add: ex_visits_def)
  note main = section_engagement_once_after_dwell
         [where sid = "''pricing''" and w = ex_world and evs = ex_visits and P = ex_pathname_of
            and pg = ex_page and ?pg1.0 = ex_page and e = "SectionTimeout ''pricing''"]
  from main zero one have dw: "\<exists>t. visible_since (now ex_world) (PageLoad ex_page # ex_visits) ''pricing'' = Some t \<and>
         t + sectionEngagementTime \<le> now ?w'" by simp
  with V N have le: "(1600::int) + sectionEngagementTime \<le> 3600" by simp
  from main np have sub: "trackedSections ex_world
     \<subseteq> trackedSections (snd (run ex_pathname_of ex_visits (ex_page, ex_world)))" by blast
  let ?w1 = "snd (step ex_pathname_of (SectionTimeout ''pricing'') ?R)"
  have w1: "?w1 = section_timeout ''pricing'' ?w'"
    by (cases ?R) simp
  have "''pricing'' \<in> trackedSections (trackSectionEngagement ''pricing'' ''pricing-section'' ?w')"
    using section_engagement_once_after_dwell
            [where sid = "''pricing''" and nm = "''pricing-section''" and w = ?w'
               and evs = "[]" and P = ex_pathname_of and pg = ex_page and ?pg1.0 = ex_page]
    by (rule conjunct1 [OF conjunct2])
  then have tr1: "''pricing'' \<in> trackedSections ?w1"
    by (simp add: w1 st)
  from section_engagement_once_after_dwell
            [where sid = "''pricing''" and nm = "''pricing-section''" and w = ?w1
               and evs = "[]" and P = ex_pathname_of and pg = ex_page and ?pg1.0 = ex_page]
  have "''pricing'' \<in> trackedSections ?w1 \<longrightarrow>
        trackSectionEngagement ''pricing'' ''pricing-section'' ?w1 = ?w1"
    by (rule conjunct1)
  with tr1 have again: "trackSectionEngagement ''pricing'' ''pricing-section'' ?w1 = ?w1"
    by (rule rev_mp)
  from zero one V N le fires tr1 again np sub show ?thesis
    by (intro conjI)
qed

end
